theory Spec2Isabelle
  imports Complex_Main "HOL-Library.Word" "HOL-Library.Signed_Division"
begin

unbundle bit_operations_syntax

section \<open>Errors and byte streams\<close>

type_synonym byte = "8 word"

text \<open>
  The error values that the two source files produce or test for: the sentinels of
  \<^verbatim>\<open>io\<close>, \<^verbatim>\<open>os\<close> and \<^verbatim>\<open>bufio\<close>, the error made by \<^verbatim>\<open>errors.New\<close> in
  \<^verbatim>\<open>SendTask\<close>, and whatever the message serializer reports.
\<close>

datatype error =
    EOF
  | ErrUnexpectedEOF
  | ErrClosedPipe
  | ErrClosed
  | ErrBufferFull
  | ErrNegativeCount
  | ErrorsNew string
  | ErrCodec string
  | Panic string

subsection \<open>\<^verbatim>\<open>encoding/binary\<close>, little endian, 32 bits\<close>

definition PutUint32 :: "32 word \<Rightarrow> byte list" where
  "PutUint32 v = [ucast v, ucast (drop_bit 8 v), ucast (drop_bit 16 v), ucast (drop_bit 24 v)]"

fun Uint32 :: "byte list \<Rightarrow> 32 word option" where
  "Uint32 (b0 # b1 # b2 # b3 # _) =
     Some (ucast b0 OR push_bit 8 (ucast b1) OR push_bit 16 (ucast b2) OR push_bit 24 (ucast b3))"
| "Uint32 _ = None"


subsection \<open>The reading end of a pipe, behind a \<^verbatim>\<open>bufio.Reader\<close>\<close>

text \<open>
  A reader is described by everything it will ever deliver: the bytes still to come
  (\<open>pending\<close>, whether already buffered or still in the pipe), the error the pipe reports
  once they are used up (\<open>ending\<close>: \<open>EOF\<close> when the peer closed its end, \<open>ErrClosed\<close>
  when the own end was closed, or any other read error), and the size of the
  \<^verbatim>\<open>bufio.Reader\<close>'s buffer (\<open>bufsize\<close>), which bounds what \<^verbatim>\<open>Peek\<close> can return.
\<close>

record Reader =
  pending :: "byte list"
  ending :: error
  bufsize :: nat

text \<open>
  \<^verbatim>\<open>io.ReadFull(r, buf)\<close> with \<open>len(buf) = n\<close>: reads until \<open>n\<close> bytes are there. When the
  stream ends early, what was read is consumed; the error is the stream's own when nothing
  was read, and \<open>ErrUnexpectedEOF\<close> replaces \<open>EOF\<close> after a partial read.
\<close>

definition ReadFull :: "nat \<Rightarrow> Reader \<Rightarrow> (error + byte list) \<times> Reader" where
  "ReadFull n r =
     (if n \<le> length (pending r)
      then (Inr (take n (pending r)), r\<lparr>pending := drop n (pending r)\<rparr>)
      else (Inl (if pending r = [] then ending r
                 else if ending r = EOF then ErrUnexpectedEOF else ending r),
            r\<lparr>pending := []\<rparr>))"

text \<open>\<^verbatim>\<open>binary.Read(r, binary.LittleEndian, &l)\<close> for a \<^verbatim>\<open>uint32\<close>.\<close>

definition binary_Read :: "Reader \<Rightarrow> (error + 32 word) \<times> Reader" where
  "binary_Read r =
     (case ReadFull 4 r of
        (Inl e, r') \<Rightarrow> (Inl e, r')
      | (Inr bs, r') \<Rightarrow>
          (case Uint32 bs of
             None \<Rightarrow> (Inl (Panic ''index out of range''), r')
           | Some l \<Rightarrow> (Inr l, r')))"

text \<open>
  \<^verbatim>\<open>(*bufio.Reader).Peek(n)\<close>: the next \<open>n\<close> bytes, without advancing. A request larger
  than the buffer gives \<open>ErrBufferFull\<close>; a stream that ends before \<open>n\<close> bytes gives the
  stream's error. \<open>n\<close> is an \<^verbatim>\<open>int\<close>, here 64 bits wide, so that the conversion of a
  \<^verbatim>\<open>uint32\<close> is never negative.
\<close>

definition Peek :: "int \<Rightarrow> Reader \<Rightarrow> (error + byte list) \<times> Reader" where
  "Peek n r =
     (if n < 0 then (Inl ErrNegativeCount, r)
      else if nat n > bufsize r then (Inl ErrBufferFull, r)
      else if nat n \<le> length (pending r) then (Inr (take (nat n) (pending r)), r)
      else (Inl (ending r), r))"

text \<open>\<^verbatim>\<open>(*bufio.Reader).Discard(n)\<close>: skips \<open>n\<close> bytes, or as many as there are.\<close>

definition Discard :: "int \<Rightarrow> Reader \<Rightarrow> (error + nat) \<times> Reader" where
  "Discard n r =
     (if n < 0 then (Inl ErrNegativeCount, r)
      else if nat n \<le> length (pending r) then (Inr (nat n), r\<lparr>pending := drop (nat n) (pending r)\<rparr>)
      else (Inl (ending r), r\<lparr>pending := []\<rparr>))"

subsection \<open>The writing end of a pipe\<close>

text \<open>
  A writer records the bytes it has accepted, in order. Once \<open>broken\<close> holds an error
  (the pipe was closed), every write returns it and accepts nothing.
\<close>

record Writer =
  sent :: "byte list"
  broken :: "error option"

definition Write :: "byte list \<Rightarrow> Writer \<Rightarrow> (error + nat) \<times> Writer" where
  "Write bs w =
     (case broken w of
        Some e \<Rightarrow> (Inl e, w)
      | None \<Rightarrow> (Inr (length bs), w\<lparr>sent := sent w @ bs\<rparr>))"

text \<open>\<^verbatim>\<open>binary.Write(w, binary.LittleEndian, v)\<close> for a \<^verbatim>\<open>uint32\<close>.\<close>

definition binary_Write :: "32 word \<Rightarrow> Writer \<Rightarrow> error option \<times> Writer" where
  "binary_Write v w =
     (case Write (PutUint32 v) w of
        (Inl e, w') \<Rightarrow> (Some e, w')
      | (Inr _, w') \<Rightarrow> (None, w'))"

section \<open>Messages\<close>

text \<open>
  \<^verbatim>\<open>Record\<close> and \<^verbatim>\<open>Task\<close> are generated protobuf types defined outside these files. Of a
  record, the code touches the \<^verbatim>\<open>Timestamp\<close> (an \<^verbatim>\<open>int64\<close>) and passes the rest along;
  a task is passed along whole. Their serialization is a parameter: \<open>Size\<close>, \<open>Marshal\<close>,
  \<open>MarshalToSizedBuffer\<close> (given the length of the destination, the bytes it leaves there)
  and \<open>Unmarshal\<close>.
\<close>

record 'd Record =
  Timestamp :: "64 word"
  Data :: 'd

record 'm Codec =
  Size :: "'m \<Rightarrow> nat"
  Marshal :: "'m \<Rightarrow> error + byte list"
  MarshalToSizedBuffer :: "'m \<Rightarrow> nat \<Rightarrow> error + byte list"
  Unmarshal :: "byte list \<Rightarrow> error + 'm"

section \<open>The plugin side: \<^verbatim>\<open>transport.Client\<close>\<close>

record 'd Client =
  reader :: Reader
  writer :: Writer
  hook :: "('d Record \<Rightarrow> error option) option"
  clock :: "64 word"

text \<open>
  Each operation returns its error (\<open>None\<close> for \<^verbatim>\<open>nil\<close>), the client after the call and,
  where the record is passed by pointer, the record as the caller holds it afterwards.
\<close>

definition SendElkeid ::
  "'d Record Codec \<Rightarrow> 'd Client \<Rightarrow> 'd Record \<Rightarrow> error option \<times> 'd Client \<times> 'd Record" where
  "SendElkeid codec c rec =
     (let size = Size codec rec in
      case binary_Write (of_nat size) (writer c) of
        (Some e, w1) \<Rightarrow> (Some e, c\<lparr>writer := w1\<rparr>, rec)
      | (None, w1) \<Rightarrow>
          (case Marshal codec rec of
             Inl e \<Rightarrow> (Some e, c\<lparr>writer := w1\<rparr>, rec)
           | Inr buf \<Rightarrow>
               (case Write buf w1 of
                  (Inl e, w2) \<Rightarrow> (Some e, c\<lparr>writer := w2\<rparr>, rec)
                | (Inr _, w2) \<Rightarrow> (None, c\<lparr>writer := w2\<rparr>, rec))))"

definition SendRecord ::
  "'d Record Codec \<Rightarrow> 'd Client \<Rightarrow> 'd Record \<Rightarrow> error option \<times> 'd Client \<times> 'd Record" where
  "SendRecord codec c rec0 =
     (let rec = rec0\<lparr>Timestamp := clock c\<rparr> in
      case hook c of
        Some h \<Rightarrow> (h rec, c, rec)
      | None \<Rightarrow>
          (case Marshal codec rec of
             Inl e \<Rightarrow> (Some e, c, rec)
           | Inr buf \<Rightarrow>
               (case binary_Write (of_nat (length buf)) (writer c) of
                  (Some e, w1) \<Rightarrow> (Some e, c\<lparr>writer := w1\<rparr>, rec)
                | (None, w1) \<Rightarrow>
                    (case Write buf w1 of
                       (Inl e, w2) \<Rightarrow> (Some e, c\<lparr>writer := w2\<rparr>, rec)
                     | (Inr _, w2) \<Rightarrow> (None, c\<lparr>writer := w2\<rparr>, rec)))))"

text \<open>
  \<^verbatim>\<open>ReceiveTask\<close> returns its error, or the decoded task when the error is \<^verbatim>\<open>nil\<close>, and the
  client after the call.
\<close>

definition ReceiveTask ::
  "'t Codec \<Rightarrow> 'd Client \<Rightarrow> (error + 't) \<times> 'd Client" where
  "ReceiveTask codec c =
     (case binary_Read (reader c) of
        (Inl e, r1) \<Rightarrow> (Inl e, c\<lparr>reader := r1\<rparr>)
      | (Inr len, r1) \<Rightarrow>
          (case Peek (uint len) r1 of
             (Inl e, r2) \<Rightarrow> (Inl e, c\<lparr>reader := r2\<rparr>)
           | (Inr buf, r2) \<Rightarrow>
               (case Discard (uint len) r2 of
                  (Inl e, r3) \<Rightarrow> (Inl e, c\<lparr>reader := r3\<rparr>)
                | (Inr _, r3) \<Rightarrow> (Unmarshal codec buf, c\<lparr>reader := r3\<rparr>))))"

section \<open>The agent side: \<^verbatim>\<open>plugin.Plugin\<close>\<close>

datatype level = InfoLevel | WarnLevel | ErrorLevel

text \<open>
  The fields of \<^verbatim>\<open>Plugin\<close> that the I/O paths and \<^verbatim>\<open>GetState\<close> use. \<open>plugin_reader\<close> is
  the field \<^verbatim>\<open>reader\<close>, made by \<^verbatim>\<open>bufio.NewReaderSize(rx_r, 1024*128)\<close>; \<open>updateTime\<close> is
  an instant in nanoseconds; \<open>logger\<close> keeps what was logged, oldest first.
\<close>

record Plugin =
  rxBytes :: "64 word"
  rxCnt :: "64 word"
  tx :: Writer
  txBytes :: "64 word"
  txCnt :: "64 word"
  updateTime :: int
  plugin_reader :: Reader
  logger :: "(level \<times> string) list"

definition log :: "level \<Rightarrow> string \<Rightarrow> Plugin \<Rightarrow> Plugin" where
  "log lv msg p = p\<lparr>logger := logger p @ [(lv, msg)]\<rparr>"

definition NewReaderSize :: "byte list \<Rightarrow> error \<Rightarrow> nat \<Rightarrow> Reader" where
  "NewReaderSize bs e n = \<lparr>pending = bs, ending = e, bufsize = max n 16\<rparr>"

definition plugin_bufsize :: nat where
  "plugin_bufsize = 1024 * 128"

subsection \<open>Reading records\<close>

definition receiveDataWithSize ::
  "'d Record Codec \<Rightarrow> Plugin \<Rightarrow> (error + 'd Record) \<times> Plugin" where
  "receiveDataWithSize codec p =
     (case binary_Read (plugin_reader p) of
        (Inl e, r1) \<Rightarrow> (Inl e, p\<lparr>plugin_reader := r1\<rparr>)
      | (Inr l, r1) \<Rightarrow>
          (case ReadFull (unat l) r1 of
             (Inl e, r2) \<Rightarrow> (Inl e, p\<lparr>plugin_reader := r2\<rparr>)
           | (Inr message, r2) \<Rightarrow>
               (case Unmarshal codec message of
                  Inl e \<Rightarrow> (Inl e, p\<lparr>plugin_reader := r2\<rparr>)
                | Inr rec \<Rightarrow>
                    (Inr rec, p\<lparr>plugin_reader := r2,
                                txCnt := txCnt p + 1,
                                txBytes := txBytes p + ucast l\<rparr>))))"

text \<open>
  The loop of \<^verbatim>\<open>Receive\<close>. The sink \<^verbatim>\<open>transport.DTransfer\<close> is the list of its calls
  \<^verbatim>\<open>Transmission(rec, isDebug)\<close>, oldest first. The loop ends only through \<^verbatim>\<open>break\<close>; a
  run that never reaches it has no result (\<open>None\<close>).
\<close>

partial_function (option) Receive ::
  "'d Record Codec \<Rightarrow> Plugin \<Rightarrow> ('d Record \<times> bool) list
     \<Rightarrow> (Plugin \<times> ('d Record \<times> bool) list) option" where
  "Receive codec p sink =
     (case receiveDataWithSize codec p of
        (Inl err, p') \<Rightarrow>
          if err = ErrBufferFull
          then Receive codec (log WarnLevel ''buffer full, skip'' p') sink
          else if \<not> (err = EOF \<or> err = ErrClosedPipe \<or> err = ErrClosed)
          then Receive codec (log ErrorLevel ''receive err:'' p') sink
          else Some (log ErrorLevel ''exit the receive task:'' p', sink)
      | (Inr rec, p') \<Rightarrow> Receive codec p' (sink @ [(rec, False)]))"

subsection \<open>Writing tasks\<close>

datatype ctl = Continue | Return

text \<open>
  The body of the \<^verbatim>\<open>case task := <-p.taskCh\<close> branch of \<^verbatim>\<open>Task\<close>: what one received task
  does to the plugin, and whether the loop goes on (\<^verbatim>\<open>continue\<close>, or the end of the body)
  or returns.
\<close>

definition Task_body :: "'t Codec \<Rightarrow> 't \<Rightarrow> Plugin \<Rightarrow> ctl \<times> Plugin" where
  "Task_body codec task p =
     (let s = Size codec task in
      case MarshalToSizedBuffer codec task s of
        Inl e \<Rightarrow> (Continue, log ErrorLevel ''task: %+v, err: %v'' p)
      | Inr body \<Rightarrow>
          (let dst = PutUint32 (of_nat s) @ body in
           case Write dst (tx p) of
             (Inl e, w) \<Rightarrow>
               (Return,
                if e \<noteq> ErrClosed
                then log ErrorLevel ''when sending task, an error occurred: '' (p\<lparr>tx := w\<rparr>)
                else p\<lparr>tx := w\<rparr>)
           | (Inr n, w) \<Rightarrow>
               (Continue, p\<lparr>tx := w, txCnt := txCnt p + 1, txBytes := txBytes p + of_nat n\<rparr>)))"

subsection \<open>Traffic rates\<close>

text \<open>
  \<^verbatim>\<open>time.Time.Sub\<close> gives a \<^verbatim>\<open>Duration\<close>, an \<^verbatim>\<open>int64\<close> of nanoseconds that saturates;
  \<^verbatim>\<open>Duration.Seconds\<close> splits it into whole seconds and the rest. The \<^verbatim>\<open>float64\<close> values
  are real numbers here: rounding is left out, which changes neither when a duration or a
  rate is zero nor what happens to the counters.
\<close>

definition Sub :: "int \<Rightarrow> int \<Rightarrow> int" where
  "Sub t u = max (- (2 ^ 63)) (min (2 ^ 63 - 1) (t - u))"

definition Seconds :: "int \<Rightarrow> real" where
  "Seconds d = of_int (d sdiv 1000000000) + of_int (d smod 1000000000) / 1000000000"

definition GetState :: "Plugin \<Rightarrow> int \<Rightarrow> (real \<times> real \<times> real \<times> real) \<times> Plugin" where
  "GetState p now =
     (let instant = Seconds (Sub now (updateTime p)) in
      if instant \<noteq> 0
      then ((real (unat (rxBytes p)) / instant,
             real (unat (txBytes p)) / instant,
             real (unat (rxCnt p)) / instant,
             real (unat (txCnt p)) / instant),
            p\<lparr>rxBytes := 0, txBytes := 0, rxCnt := 0, txCnt := 0, updateTime := now\<rparr>)
      else ((0, 0, 0, 0), p\<lparr>updateTime := now\<rparr>))"

text \<open>
  What \<^verbatim>\<open>NewPlugin\<close> sets up for the I/O paths: zero counters, \<^verbatim>\<open>updateTime: time.Now()\<close>,
  an open writing end, and the buffered reader of 128 KiB over the reading end, which will
  deliver \<open>input\<close> and then report \<open>e\<close>.
\<close>

definition NewPlugin :: "byte list \<Rightarrow> error \<Rightarrow> int \<Rightarrow> Plugin" where
  "NewPlugin input e now =
     \<lparr>rxBytes = 0, rxCnt = 0, tx = \<lparr>sent = [], broken = None\<rparr>, txBytes = 0, txCnt = 0,
      updateTime = now, plugin_reader = NewReaderSize input e plugin_bufsize, logger = []\<rparr>"

section \<open>Frames\<close>

text \<open>
  The frame of a payload as the specification words it: the length as four little-endian
  bytes, then the payload.
\<close>

definition frame :: "byte list \<Rightarrow> byte list" where
  "frame buf = PutUint32 (of_nat (length buf)) @ buf"

text \<open>
  Two small serializers to run the code on. A task is its own bytes. A record is one byte
  of timestamp followed by its data, so that only timestamps below 256 can be marshalled
  and the empty payload does not decode.
\<close>

definition example_task_codec :: "byte list Codec" where
  "example_task_codec =
     \<lparr>Size = length,
      Marshal = Inr,
      MarshalToSizedBuffer = (\<lambda>t n. if length t \<le> n then Inr (replicate (n - length t) 0 @ t)
                                     else Inl (Panic ''index out of range'')),
      Unmarshal = Inr\<rparr>"

definition example_record_codec :: "byte list Record Codec" where
  "example_record_codec =
     \<lparr>Size = (\<lambda>r. 1 + length (Data r)),
      Marshal = (\<lambda>r. if Timestamp r < 256 then Inr (ucast (Timestamp r) # Data r)
                      else Inl (ErrCodec ''timestamp'')),
      MarshalToSizedBuffer = (\<lambda>r n. if Timestamp r < 256 \<and> n = 1 + length (Data r)
                                     then Inr (ucast (Timestamp r) # Data r)
                                     else Inl (ErrCodec ''marshal'')),
      Unmarshal = (\<lambda>bs. case bs of [] \<Rightarrow> Inl (ErrCodec ''unexpected EOF'')
                          | b # data \<Rightarrow> Inr \<lparr>Timestamp = ucast b, Data = data\<rparr>)\<rparr>"

text \<open>
  A client over a reading end that delivers \<open>input\<close> and then \<open>EOF\<close>, with a buffered
  reader of \<open>n\<close> bytes, nothing written yet, no hook, and a clock that shows \<open>now\<close>.
\<close>

definition example_client :: "byte list \<Rightarrow> nat \<Rightarrow> 64 word \<Rightarrow> byte list Client" where
  "example_client input n now =
     \<lparr>reader = NewReaderSize input EOF n, writer = \<lparr>sent = [], broken = None\<rparr>,
      hook = None, clock = now\<rparr>"

text \<open>
  Two payloads one byte longer than the 128 KiB buffer: a task, and the bytes of a record
  with timestamp 7.
\<close>

definition big_task :: "byte list" where
  "big_task = replicate (1024 * 128 + 1) 7"


section \<open>Dispatching tasks: \<^verbatim>\<open>SendTask\<close> and the loop of \<^verbatim>\<open>Task\<close>\<close>

text \<open>
  Where the goroutine that runs \<^verbatim>\<open>Task\<close> stands: about to enter its \<^verbatim>\<open>select\<close>, parked in
  it with no case ready, woken by the close of \<^verbatim>\<open>p.done\<close>, holding a task it has received
  from \<^verbatim>\<open>p.taskCh\<close>, or returned.
\<close>

datatype 't task_pc = TkSelect | TkParked | TkWoken | TkGot 't | TkReturned

text \<open>
  The plugin with its unbuffered channel \<^verbatim>\<open>taskCh\<close> and the channel \<^verbatim>\<open>done\<close>. A send on an
  unbuffered channel can proceed only while a receiver is parked on it, and the only
  receiver is the loop of \<^verbatim>\<open>Task\<close>; \<open>answers\<close> keeps what the calls of \<^verbatim>\<open>SendTask\<close> returned,
  oldest first.
\<close>

record 't Dispatcher =
  plugin :: Plugin
  done_closed :: bool
  task_at :: "'t task_pc"
  answers :: "error option list"

definition ErrBusy :: error where
  "ErrBusy = ErrorsNew ''plugin is processing task or context has been canceled''"

definition SendTask :: "'t \<Rightarrow> 't Dispatcher \<Rightarrow> error option \<times> 't Dispatcher" where
  "SendTask task d =
     (case task_at d of
        TkParked \<Rightarrow> (None, d\<lparr>task_at := TkGot task\<rparr>)
      | _ \<Rightarrow> (Some ErrBusy, d))"

text \<open>
  One step of the loop of \<^verbatim>\<open>Task\<close>. Entering the \<^verbatim>\<open>select\<close>, it returns if \<^verbatim>\<open>done\<close> is closed
  and parks otherwise (no sender ever waits on \<^verbatim>\<open>taskCh\<close>, since \<^verbatim>\<open>SendTask\<close> does not
  wait). Parked, it cannot move by itself.
\<close>

definition Task_step :: "'t Codec \<Rightarrow> 't Dispatcher \<Rightarrow> 't Dispatcher option" where
  "Task_step codec d =
     (case task_at d of
        TkSelect \<Rightarrow> Some (d\<lparr>task_at := (if done_closed d then TkReturned else TkParked)\<rparr>)
      | TkParked \<Rightarrow> None
      | TkWoken \<Rightarrow> Some (d\<lparr>task_at := TkReturned\<rparr>)
      | TkGot task \<Rightarrow>
          (case Task_body codec task (plugin d) of
             (Continue, p') \<Rightarrow> Some (d\<lparr>plugin := p', task_at := TkSelect\<rparr>)
           | (Return, p') \<Rightarrow> Some (d\<lparr>plugin := p', task_at := TkReturned\<rparr>))
      | TkReturned \<Rightarrow> None)"

text \<open>
  What else happens to the dispatcher: a caller runs \<^verbatim>\<open>SendTask\<close>; \<^verbatim>\<open>Wait\<close> closes \<^verbatim>\<open>done\<close>,
  which wakes the parked loop; the writing end of the pipe is closed.
\<close>

datatype 't dispatch_action = CallSendTask 't | TaskStep | CloseDone | CloseTx

fun dispatch_step :: "'t Codec \<Rightarrow> 't dispatch_action \<Rightarrow> 't Dispatcher \<Rightarrow> 't Dispatcher option" where
  "dispatch_step codec (CallSendTask task) d =
     (case SendTask task d of (r, d') \<Rightarrow> Some (d'\<lparr>answers := answers d' @ [r]\<rparr>))"
| "dispatch_step codec TaskStep d = Task_step codec d"
| "dispatch_step codec CloseDone d =
     (if done_closed d then None
      else Some (d\<lparr>done_closed := True,
                   task_at := (if task_at d = TkParked then TkWoken else task_at d)\<rparr>))"
| "dispatch_step codec CloseTx d =
     Some (d\<lparr>plugin := (plugin d)\<lparr>tx := (tx (plugin d))\<lparr>broken := Some ErrClosed\<rparr>\<rparr>\<rparr>)"

fun dispatch_exec :: "'t Codec \<Rightarrow> 't dispatch_action list \<Rightarrow> 't Dispatcher \<Rightarrow> 't Dispatcher option" where
  "dispatch_exec codec [] d = Some d"
| "dispatch_exec codec (a # as) d =
     (case dispatch_step codec a d of None \<Rightarrow> None | Some d' \<Rightarrow> dispatch_exec codec as d')"

definition NewDispatcher :: "Plugin \<Rightarrow> 't Dispatcher" where
  "NewDispatcher p = \<lparr>plugin = p, done_closed = False, task_at = TkSelect, answers = []\<rparr>"

fun sends :: "'t dispatch_action list \<Rightarrow> nat" where
  "sends [] = 0"
| "sends (CallSendTask _ # as) = Suc (sends as)"
| "sends (_ # as) = sends as"

text \<open>
  A run of the dispatcher: the loop parks, one task is handed over, a second call comes
  while the first task is being written, the loop parks again, and \<^verbatim>\<open>done\<close> is closed.
\<close>

definition busy_run :: "byte list dispatch_action list" where
  "busy_run = [TaskStep, CallSendTask [1], CallSendTask [2], TaskStep, TaskStep, CloseDone]"

section \<open>The life cycle: \<^verbatim>\<open>Wait\<close> and \<^verbatim>\<open>Shutdown\<close>\<close>

text \<open>
  An \<^verbatim>\<open>*os.File\<close> as far as \<^verbatim>\<open>Close\<close> goes: whether it is open, and who called
  \<^verbatim>\<open>Close\<close> with what result, oldest first. The first call releases the descriptor; any
  later call finds the file closed, changes nothing and returns \<^verbatim>\<open>os.ErrClosed\<close>. The
  callers are \<^verbatim>\<open>Wait\<close> and the calls of \<^verbatim>\<open>Shutdown\<close>, which are numbered.
\<close>

datatype caller = ByWait | ByShutdown nat

record File =
  is_open :: bool
  close_calls :: "(caller \<times> error option) list"

definition File_Close :: "caller \<Rightarrow> File \<Rightarrow> File" where
  "File_Close who f =
     (if is_open f
      then \<lparr>is_open = False, close_calls = close_calls f @ [(who, None)]\<rparr>
      else f\<lparr>close_calls := close_calls f @ [(who, Some ErrClosed)]\<rparr>)"

datatype signal = SIGKILL

text \<open>
  Where a call of \<^verbatim>\<open>Shutdown\<close> stands: before \<^verbatim>\<open>p.mu.Lock()\<close> (not yet made, or waiting
  for the lock), before \<^verbatim>\<open>if p.IsExited()\<close>, before
  \<^verbatim>\<open>p.tx.Close()\<close>, before \<^verbatim>\<open>p.rx.Close()\<close>, before \<^verbatim>\<open>time.After\<close> starts the timer of the
  \<^verbatim>\<open>select\<close>, waiting in the \<^verbatim>\<open>select\<close>, before \<^verbatim>\<open>syscall.Kill\<close>, waiting in \<^verbatim>\<open><-p.done\<close>, or
  at one of its three returns (each of which unlocks \<^verbatim>\<open>p.mu\<close>). \<^verbatim>\<open>Wait\<close> stands in
  \<^verbatim>\<open>p.cmd.Wait()\<close>, before \<^verbatim>\<open>p.rx.Close()\<close>, before \<^verbatim>\<open>p.tx.Close()\<close>, before
  \<^verbatim>\<open>close(p.done)\<close>, or has returned.
\<close>

datatype return_point = AlreadyExited | ByDone | ByKill

datatype shutdown_pc =
    SdLock | SdIsExited | SdTxClose | SdRxClose | SdAfter | SdSelect | SdKill | SdWaitDone
  | SdReturned return_point

datatype wait_pc = WtCmdWait | WtRxClose | WtTxClose | WtCloseDone | WtReturned

text \<open>
  One supervisor, its child, the goroutine that runs \<^verbatim>\<open>Wait\<close> and the calls of
  \<^verbatim>\<open>Shutdown\<close>, as many as there may be, each in a goroutine of its own: call \<open>i\<close> stands
  at \<open>shutdown_at w i\<close>, and the timer of its \<^verbatim>\<open>select\<close> fires at \<open>deadline w i\<close>.
  \<open>alive\<close>: the child has not terminated; \<open>ProcessState\<close>:
  \<^verbatim>\<open>p.cmd.ProcessState != nil\<close>; \<open>done_closes\<close>: how often \<^verbatim>\<open>close(p.done)\<close> ran (the
  channel is closed from the first on; a second one panics); \<open>kills\<close>: the calls of
  \<^verbatim>\<open>syscall.Kill\<close>, each with the number of the call of \<^verbatim>\<open>Shutdown\<close> that made it;
  \<open>time_ns\<close>: the time in nanoseconds; \<open>mu\<close>: \<^verbatim>\<open>p.mu\<close> is locked.
\<close>

record Supervisor =
  pid :: int
  alive :: bool
  ProcessState :: bool
  rx_pipe :: File
  tx_pipe :: File
  done_closes :: nat
  panicked :: bool
  kills :: "(nat \<times> int \<times> signal) list"
  time_ns :: nat
  deadline :: "nat \<Rightarrow> nat"
  mu :: bool
  shutdown_at :: "nat \<Rightarrow> shutdown_pc"
  wait_at :: wait_pc
  shutdown_log :: "(level \<times> string) list"

definition grace :: nat where
  "grace = 30 * 1000000000"

definition Started :: "int \<Rightarrow> Supervisor" where
  "Started p =
     \<lparr>pid = p, alive = True, ProcessState = False,
      rx_pipe = \<lparr>is_open = True, close_calls = []\<rparr>,
      tx_pipe = \<lparr>is_open = True, close_calls = []\<rparr>,
      done_closes = 0, panicked = False, kills = [], time_ns = 0, deadline = (\<lambda>_. 0),
      mu = False, shutdown_at = (\<lambda>_. SdLock), wait_at = WtCmdWait, shutdown_log = []\<rparr>"

definition slog :: "level \<Rightarrow> string \<Rightarrow> Supervisor \<Rightarrow> Supervisor" where
  "slog lv msg w = w\<lparr>shutdown_log := shutdown_log w @ [(lv, msg)]\<rparr>"

text \<open>\<open>goto i pc w\<close>: call \<open>i\<close> of \<^verbatim>\<open>Shutdown\<close> moves on to \<open>pc\<close>.\<close>

definition goto :: "nat \<Rightarrow> shutdown_pc \<Rightarrow> Supervisor \<Rightarrow> Supervisor" where
  "goto i pc w = w\<lparr>shutdown_at := (shutdown_at w)(i := pc)\<rparr>"

text \<open>
  What can happen next: the child exits by itself, time passes, \<^verbatim>\<open>Wait\<close> or a call of
  \<^verbatim>\<open>Shutdown\<close> runs its next statement, or the timer branch of the \<^verbatim>\<open>select\<close> of a call is
  taken. A statement that would block is not enabled (\<open>None\<close>): \<^verbatim>\<open>p.mu.Lock()\<close> needs the
  lock free; \<^verbatim>\<open>p.cmd.Wait()\<close> returns once the child has
  terminated and sets \<^verbatim>\<open>ProcessState\<close>; the \<^verbatim>\<open>done\<close> branch of the \<^verbatim>\<open>select\<close> and \<^verbatim>\<open><-p.done\<close>
  need the channel closed; the timer branch needs the deadline passed. \<open>SIGKILL\<close> cannot
  be caught, so the child is taken to be dead once it is sent.
\<close>

datatype action = Exit | Tick nat | WaitStep | ShutdownStep nat | ShutdownTimer nat

definition Wait_step :: "Supervisor \<Rightarrow> Supervisor option" where
  "Wait_step w =
     (case wait_at w of
        WtCmdWait \<Rightarrow>
          if alive w then None else Some (w\<lparr>ProcessState := True, wait_at := WtRxClose\<rparr>)
      | WtRxClose \<Rightarrow> Some (w\<lparr>rx_pipe := File_Close ByWait (rx_pipe w), wait_at := WtTxClose\<rparr>)
      | WtTxClose \<Rightarrow> Some (w\<lparr>tx_pipe := File_Close ByWait (tx_pipe w), wait_at := WtCloseDone\<rparr>)
      | WtCloseDone \<Rightarrow>
          Some (w\<lparr>done_closes := done_closes w + 1,
                  panicked := (panicked w \<or> 0 < done_closes w),
                  wait_at := WtReturned\<rparr>)
      | WtReturned \<Rightarrow> None)"

definition Shutdown_step :: "nat \<Rightarrow> Supervisor \<Rightarrow> Supervisor option" where
  "Shutdown_step i w =
     (case shutdown_at w i of
        SdLock \<Rightarrow> if mu w then None else Some (goto i SdIsExited (w\<lparr>mu := True\<rparr>))
      | SdIsExited \<Rightarrow>
          if ProcessState w
          then Some (goto i (SdReturned AlreadyExited) (w\<lparr>mu := False\<rparr>))
          else Some (slog InfoLevel ''shutdown called'' (goto i SdTxClose w))
      | SdTxClose \<Rightarrow>
          Some (goto i SdRxClose (w\<lparr>tx_pipe := File_Close (ByShutdown i) (tx_pipe w)\<rparr>))
      | SdRxClose \<Rightarrow>
          Some (goto i SdAfter (w\<lparr>rx_pipe := File_Close (ByShutdown i) (rx_pipe w)\<rparr>))
      | SdAfter \<Rightarrow>
          Some (goto i SdSelect (w\<lparr>deadline := (deadline w)(i := time_ns w + grace)\<rparr>))
      | SdSelect \<Rightarrow>
          if 0 < done_closes w
          then Some (slog InfoLevel ''close by done channel''
                       (goto i (SdReturned ByDone) (w\<lparr>mu := False\<rparr>)))
          else None
      | SdKill \<Rightarrow>
          Some (goto i SdWaitDone
                  (w\<lparr>kills := kills w @ [(i, - pid w, SIGKILL)], alive := False\<rparr>))
      | SdWaitDone \<Rightarrow>
          if 0 < done_closes w
          then Some (slog InfoLevel ''close by killing done''
                       (goto i (SdReturned ByKill) (w\<lparr>mu := False\<rparr>)))
          else None
      | SdReturned _ \<Rightarrow> None)"

definition Shutdown_timer :: "nat \<Rightarrow> Supervisor \<Rightarrow> Supervisor option" where
  "Shutdown_timer i w =
     (if shutdown_at w i = SdSelect \<and> deadline w i \<le> time_ns w
      then Some (slog WarnLevel ''close by killing start'' (goto i SdKill w))
      else None)"

fun lifecycle_step :: "action \<Rightarrow> Supervisor \<Rightarrow> Supervisor option" where
  "lifecycle_step Exit w = (if alive w then Some (w\<lparr>alive := False\<rparr>) else None)"
| "lifecycle_step (Tick d) w = Some (w\<lparr>time_ns := time_ns w + d\<rparr>)"
| "lifecycle_step WaitStep w = Wait_step w"
| "lifecycle_step (ShutdownStep i) w = Shutdown_step i w"
| "lifecycle_step (ShutdownTimer i) w = Shutdown_timer i w"

fun lifecycle_exec :: "action list \<Rightarrow> Supervisor \<Rightarrow> Supervisor option" where
  "lifecycle_exec [] w = Some w"
| "lifecycle_exec (a # as) w = (case lifecycle_step a w of None \<Rightarrow> None | Some w' \<Rightarrow> lifecycle_exec as w')"

text \<open>
  The facts that hold in every state reached from \<open>Started\<close>. \<open>closed_once f cs\<close>: the
  callers in \<open>cs\<close>, each once, have called \<^verbatim>\<open>Close\<close> on \<open>f\<close>; the first call succeeded and
  every later one returned \<open>ErrClosed\<close>.
\<close>

definition closed_once :: "File \<Rightarrow> caller set \<Rightarrow> bool" where
  "closed_once f cs \<longleftrightarrow>
     distinct (map fst (close_calls f)) \<and> set (map fst (close_calls f)) = cs
     \<and> is_open f = (close_calls f = [])
     \<and> map snd (close_calls f) =
         (case close_calls f of [] \<Rightarrow> [] | _ # r \<Rightarrow> None # map (\<lambda>_. Some ErrClosed) r)"

fun wait_closed_rx :: "wait_pc \<Rightarrow> bool" where
  "wait_closed_rx WtCmdWait = False"
| "wait_closed_rx WtRxClose = False"
| "wait_closed_rx _ = True"

fun wait_closed_tx :: "wait_pc \<Rightarrow> bool" where
  "wait_closed_tx WtCloseDone = True"
| "wait_closed_tx WtReturned = True"
| "wait_closed_tx _ = False"

fun shutdown_closed_tx :: "shutdown_pc \<Rightarrow> bool" where
  "shutdown_closed_tx SdLock = False"
| "shutdown_closed_tx SdIsExited = False"
| "shutdown_closed_tx SdTxClose = False"
| "shutdown_closed_tx (SdReturned AlreadyExited) = False"
| "shutdown_closed_tx _ = True"

fun shutdown_closed_rx :: "shutdown_pc \<Rightarrow> bool" where
  "shutdown_closed_rx SdRxClose = False"
| "shutdown_closed_rx pc = shutdown_closed_tx pc"

fun shutdown_killed :: "shutdown_pc \<Rightarrow> bool" where
  "shutdown_killed SdWaitDone = True"
| "shutdown_killed (SdReturned ByKill) = True"
| "shutdown_killed _ = False"

fun timer_fired :: "shutdown_pc \<Rightarrow> bool" where
  "timer_fired SdKill = True"
| "timer_fired pc = shutdown_killed pc"

fun saw_done :: "shutdown_pc \<Rightarrow> bool" where
  "saw_done (SdReturned ByDone) = True"
| "saw_done (SdReturned ByKill) = True"
| "saw_done _ = False"

fun holds_mu :: "shutdown_pc \<Rightarrow> bool" where
  "holds_mu SdLock = False"
| "holds_mu (SdReturned _) = False"
| "holds_mu _ = True"

text \<open>\<open>entered pc\<close>: the call has found the child not exited and gone on.\<close>

fun entered :: "shutdown_pc \<Rightarrow> bool" where
  "entered SdLock = False"
| "entered SdIsExited = False"
| "entered (SdReturned AlreadyExited) = False"
| "entered _ = True"

definition closers :: "bool \<Rightarrow> nat set \<Rightarrow> caller set" where
  "closers by_wait by_shutdown = (if by_wait then {ByWait} else {}) \<union> ByShutdown ` by_shutdown"

definition wait_inv :: "Supervisor \<Rightarrow> bool" where
  "wait_inv w \<longleftrightarrow>
     (ProcessState w \<longleftrightarrow> wait_at w \<noteq> WtCmdWait)
     \<and> (ProcessState w \<longrightarrow> \<not> alive w)
     \<and> done_closes w = (if wait_at w = WtReturned then 1 else 0)
     \<and> \<not> panicked w"

definition pipes_inv :: "Supervisor \<Rightarrow> bool" where
  "pipes_inv w \<longleftrightarrow>
     closed_once (rx_pipe w)
       (closers (wait_closed_rx (wait_at w)) {i. shutdown_closed_rx (shutdown_at w i)})
     \<and> closed_once (tx_pipe w)
         (closers (wait_closed_tx (wait_at w)) {i. shutdown_closed_tx (shutdown_at w i)})"

definition kills_inv :: "Supervisor \<Rightarrow> bool" where
  "kills_inv w \<longleftrightarrow>
     (\<forall>i. shutdown_killed (shutdown_at w i) \<longrightarrow> kills w = [(i, - pid w, SIGKILL)])
     \<and> ((\<forall>i. \<not> shutdown_killed (shutdown_at w i)) \<longrightarrow> kills w = [])"

definition call_inv :: "Supervisor \<Rightarrow> nat \<Rightarrow> bool" where
  "call_inv w i \<longleftrightarrow>
     (timer_fired (shutdown_at w i) \<longrightarrow> deadline w i \<le> time_ns w)
     \<and> (shutdown_at w i = SdSelect \<longrightarrow> deadline w i \<le> time_ns w + grace)
     \<and> (shutdown_killed (shutdown_at w i) \<longrightarrow> \<not> alive w)
     \<and> (shutdown_at w i = SdReturned AlreadyExited \<longrightarrow> ProcessState w)
     \<and> (saw_done (shutdown_at w i) \<longrightarrow> wait_at w = WtReturned)"

definition mutex_inv :: "Supervisor \<Rightarrow> bool" where
  "mutex_inv w \<longleftrightarrow>
     (mu w \<longleftrightarrow> (\<exists>i. holds_mu (shutdown_at w i)))
     \<and> (\<forall>i j. holds_mu (shutdown_at w i) \<and> holds_mu (shutdown_at w j) \<longrightarrow> i = j)
     \<and> (\<forall>i j. entered (shutdown_at w i) \<and> entered (shutdown_at w j) \<longrightarrow> i = j)"

definition lifecycle_inv :: "Supervisor \<Rightarrow> bool" where
  "lifecycle_inv w \<longleftrightarrow>
     wait_inv w \<and> pipes_inv w \<and> kills_inv w \<and> (\<forall>i. call_inv w i) \<and> mutex_inv w"






definition race_run :: "action list" where
  "race_run =
     [ShutdownStep 0, ShutdownStep 0, Exit, WaitStep, WaitStep, ShutdownStep 0, WaitStep,
      ShutdownStep 0, WaitStep, ShutdownStep 0, ShutdownStep 0]"



section \<open>Properties of the framed protocol\<close>

lemma length_PutUint32: "length (PutUint32 v) = 4"
  by (simp add: PutUint32_def)

lemma Uint32_PutUint32_aux:
  "ucast (ucast v :: byte) OR push_bit 8 (ucast (ucast (drop_bit 8 v) :: byte))
        OR push_bit 16 (ucast (ucast (drop_bit 16 v) :: byte))
        OR push_bit 24 (ucast (ucast (drop_bit 24 v) :: byte)) = (v :: 32 word)"
  (is "?l = v")
proof (rule bit_word_eqI)
  fix n assume n: "n < LENGTH(32)"
  then have a: "n < 8 \<or> (8 \<le> n \<and> n < 16) \<or> (16 \<le> n \<and> n < 24) \<or> (24 \<le> n \<and> n < 32)"
    by auto
  then show "bit ?l n = bit v n"
    by (elim disjE conjE) (auto simp add: bit_simps)
qed

lemma Uint32_PutUint32: "Uint32 (PutUint32 v @ rest) = Some v"
  by (simp add: PutUint32_def Uint32_PutUint32_aux)

lemma unat_of_nat_u32: "n < 2 ^ 32 \<Longrightarrow> unat (of_nat n :: 32 word) = n"
  by (simp add: unat_of_nat)

lemma ucast_of_nat_u32_u64:
  "n < 2 ^ 32 \<Longrightarrow> (ucast (of_nat n :: 32 word) :: 64 word) = of_nat n"
  apply (rule word_unat_eq_iff [THEN iffD2])
  apply (simp add: unsigned_ucast_eq unat_of_nat take_bit_nat_eq_self)
  done

lemma ReadFull_prefix:
  "pending r = bs @ rest \<Longrightarrow> length bs = n \<Longrightarrow>
   ReadFull n r = (Inr bs, r\<lparr>pending := rest\<rparr>)"
  by (simp add: ReadFull_def)

lemma binary_Read_prefix:
  "pending r = PutUint32 v @ rest \<Longrightarrow> binary_Read r = (Inr v, r\<lparr>pending := rest\<rparr>)"
  by (simp add: binary_Read_def ReadFull_prefix [where bs = "PutUint32 v"] length_PutUint32
        Uint32_PutUint32 [of v "[]", simplified])

lemma Peek_prefix:
  "pending r = bs @ rest \<Longrightarrow> length bs \<le> bufsize r \<Longrightarrow>
   Peek (int (length bs)) r = (Inr bs, r)"
  by (simp add: Peek_def)

lemma uint_of_nat_u32: "n < 2 ^ 32 \<Longrightarrow> uint (of_nat n :: 32 word) = int n"
  by (simp add: unsigned_of_nat take_bit_nat_eq_self)

lemma Peek_too_big:
  "bufsize r < unat l \<Longrightarrow> Peek (uint l) r = (Inl ErrBufferFull, r)"
  by (simp add: Peek_def)

lemma Discard_prefix:
  "pending r = bs @ rest \<Longrightarrow>
   Discard (int (length bs)) r = (Inr (length bs), r\<lparr>pending := rest\<rparr>)"
  by (simp add: Discard_def)

lemma receiveDataWithSize_frame:
  assumes "pending (plugin_reader p) = frame buf @ rest" and "length buf < 2 ^ 32"
  shows "receiveDataWithSize codec p =
     (case Unmarshal codec buf of
        Inl e \<Rightarrow> (Inl e, p\<lparr>plugin_reader := (plugin_reader p)\<lparr>pending := rest\<rparr>\<rparr>)
      | Inr rec \<Rightarrow> (Inr rec, p\<lparr>plugin_reader := (plugin_reader p)\<lparr>pending := rest\<rparr>,
                               txCnt := txCnt p + 1,
                               txBytes := txBytes p + of_nat (length buf)\<rparr>))"
proof -
  let ?l = "of_nat (length buf) :: 32 word"
  have a: "binary_Read (plugin_reader p) = (Inr ?l, (plugin_reader p)\<lparr>pending := buf @ rest\<rparr>)"
    using assms(1) by (simp add: frame_def binary_Read_prefix)
  have b: "ReadFull (unat ?l) ((plugin_reader p)\<lparr>pending := buf @ rest\<rparr>)
           = (Inr buf, (plugin_reader p)\<lparr>pending := rest\<rparr>)"
    using assms(2) by (simp add: ReadFull_prefix [where bs = buf and rest = rest] unat_of_nat_u32)
  have c: "(ucast ?l :: 64 word) = of_nat (length buf)"
    using assms(2) by (rule ucast_of_nat_u32_u64)
  show ?thesis
    by (simp add: receiveDataWithSize_def a b c split: sum.splits)
qed

lemma ReceiveTask_frame:
  assumes "pending (reader c) = frame buf @ rest" and "length buf < 2 ^ 32"
    and "length buf \<le> bufsize (reader c)"
  shows "ReceiveTask codec c = (Unmarshal codec buf, c\<lparr>reader := (reader c)\<lparr>pending := rest\<rparr>\<rparr>)"
proof -
  let ?l = "of_nat (length buf) :: 32 word"
  let ?r1 = "(reader c)\<lparr>pending := buf @ rest\<rparr>"
  have a: "binary_Read (reader c) = (Inr ?l, ?r1)"
    using assms(1) by (simp add: frame_def binary_Read_prefix)
  have u: "uint ?l = int (length buf)"
    using assms(2) by (simp add: uint_of_nat_u32)
  have b: "Peek (int (length buf)) ?r1 = (Inr buf, ?r1)"
    using assms(3) by (simp add: Peek_prefix [where rest = rest])
  have d: "Discard (int (length buf)) ?r1 = (Inr (length buf), (reader c)\<lparr>pending := rest\<rparr>)"
    by (simp add: Discard_prefix [where rest = rest])
  show ?thesis
    by (simp only: ReceiveTask_def a u b d prod.case sum.case)
qed

lemma ReceiveTask_oversize:
  assumes "pending (reader c) = PutUint32 l @ rest" and "bufsize (reader c) < unat l"
  shows "ReceiveTask codec c = (Inl ErrBufferFull, c\<lparr>reader := (reader c)\<lparr>pending := rest\<rparr>\<rparr>)"
proof -
  let ?r1 = "(reader c)\<lparr>pending := rest\<rparr>"
  have a: "binary_Read (reader c) = (Inr l, ?r1)"
    using assms(1) by (simp add: binary_Read_prefix)
  have b: "Peek (uint l) ?r1 = (Inl ErrBufferFull, ?r1)"
    using assms(2) by (simp add: Peek_too_big)
  show ?thesis
    by (simp only: ReceiveTask_def a b prod.case sum.case)
qed

lemma SendRecord_frame:
  assumes "hook c = None" and "broken (writer c) = None"
    and "Marshal codec (rec\<lparr>Timestamp := clock c\<rparr>) = Inr buf"
  shows "SendRecord codec c rec =
     (None, c\<lparr>writer := (writer c)\<lparr>sent := sent (writer c) @ frame buf\<rparr>\<rparr>, rec\<lparr>Timestamp := clock c\<rparr>)"
  using assms by (simp add: SendRecord_def binary_Write_def Write_def frame_def)

lemma Task_body_frame:
  assumes "broken (tx p) = None"
    and "MarshalToSizedBuffer codec task (Size codec task) = Inr buf"
    and "length buf = Size codec task"
  shows "Task_body codec task p =
     (Continue, p\<lparr>tx := (tx p)\<lparr>sent := sent (tx p) @ frame buf\<rparr>,
                   txCnt := txCnt p + 1,
                   txBytes := txBytes p + of_nat (4 + length buf)\<rparr>)"
  using assms by (simp add: Task_body_def Write_def frame_def length_PutUint32 Let_def)

lemma Seconds_eq: "Seconds d = real_of_int d / 1000000000"
proof -
  have "d = (d sdiv 1000000000) * 1000000000 + d smod 1000000000"
    by (rule sdiv_mult_smod_eq [symmetric])
  then have "real_of_int d = real_of_int ((d sdiv 1000000000) * 1000000000 + d smod 1000000000)"
    by simp
  then show ?thesis
    by (simp add: Seconds_def field_simps)
qed

lemma Seconds_zero_iff: "Seconds d = 0 \<longleftrightarrow> d = 0"
  by (simp add: Seconds_eq)

lemma Receive_frame:
  assumes "pending (plugin_reader p) = frame buf @ rest" and "length buf < 2 ^ 32"
    and "Unmarshal codec buf = Inr rec"
  shows "Receive codec p sink =
         Receive codec (p\<lparr>plugin_reader := (plugin_reader p)\<lparr>pending := rest\<rparr>,
                          txCnt := txCnt p + 1,
                          txBytes := txBytes p + of_nat (length buf)\<rparr>) (sink @ [(rec, False)])"
  by (subst Receive.simps) (simp add: receiveDataWithSize_frame [OF assms(1,2)] assms(3))


lemma receiveDataWithSize_end:
  assumes "pending (plugin_reader p) = []"
  shows "receiveDataWithSize codec p = (Inl (ending (plugin_reader p)), p)"
  using assms by (simp add: receiveDataWithSize_def binary_Read_def ReadFull_def)

lemma Receive_end:
  assumes "pending (plugin_reader p) = []"
    and "ending (plugin_reader p) = EOF \<or> ending (plugin_reader p) = ErrClosedPipe
         \<or> ending (plugin_reader p) = ErrClosed"
  shows "Receive codec p sink = Some (log ErrorLevel ''exit the receive task:'' p, sink)"
  using assms(2) by (subst Receive.simps) (auto simp add: receiveDataWithSize_end [OF assms(1)])



lemma ReceiveTask_declared:
  assumes "pending (reader c) = PutUint32 l @ payload @ rest" and "length payload = unat l"
    and "unat l \<le> bufsize (reader c)"
  shows "ReceiveTask tc c = (Unmarshal tc payload, c\<lparr>reader := (reader c)\<lparr>pending := rest\<rparr>\<rparr>)"
proof -
  let ?r1 = "(reader c)\<lparr>pending := payload @ rest\<rparr>"
  have a: "binary_Read (reader c) = (Inr l, ?r1)"
    using assms(1) by (simp add: binary_Read_prefix)
  have b: "Peek (uint l) ?r1 = (Inr payload, ?r1)"
    using assms(2,3) by (simp add: Peek_def)
  have d: "Discard (uint l) ?r1 = (Inr (length payload), (reader c)\<lparr>pending := rest\<rparr>)"
    using assms(2) by (simp add: Discard_def)
  show ?thesis
    by (simp only: ReceiveTask_def a b d prod.case sum.case)
qed

lemma length_big_task: "length big_task = 131073"
  by (simp add: big_task_def)




section \<open>Claims about the framed protocol\<close>

text \<open>
  C1 (as amended). A message whose payload is shorter than \<open>2 ^ 32\<close> bytes survives the
  frame: \<^verbatim>\<open>SendRecord\<close> without a hook writes \<open>frame buf\<close> for the record as it has
  stamped it, and \<^verbatim>\<open>receiveDataWithSize\<close> reads that stamped record back and leaves the
  rest of the stream; the body of \<^verbatim>\<open>Task\<close> writes \<open>frame tbuf\<close>, and \<^verbatim>\<open>ReceiveTask\<close>
  reads the task back provided the payload fits the buffer of the client's reader.
\<close>

theorem frame_roundtrip:
  assumes "length buf < 2 ^ 32"
    and "hook c = None" and "broken (writer c) = None"
    and "Marshal rc (rec\<lparr>Timestamp := clock c\<rparr>) = Inr buf"
    and "Unmarshal rc buf = Inr (rec\<lparr>Timestamp := clock c\<rparr>)"
    and "pending (plugin_reader p) = frame buf @ rest"
    and "length tbuf < 2 ^ 32"
    and "broken (tx q) = None"
    and "MarshalToSizedBuffer tc task (Size tc task) = Inr tbuf"
    and "length tbuf = Size tc task"
    and "Unmarshal tc tbuf = Inr task"
    and "pending (reader cl) = frame tbuf @ rest'"
    and "length tbuf \<le> bufsize (reader cl)"
  shows "SendRecord rc c rec =
           (None, c\<lparr>writer := (writer c)\<lparr>sent := sent (writer c) @ frame buf\<rparr>\<rparr>,
            rec\<lparr>Timestamp := clock c\<rparr>)
       \<and> receiveDataWithSize rc p =
           (Inr (rec\<lparr>Timestamp := clock c\<rparr>),
            p\<lparr>plugin_reader := (plugin_reader p)\<lparr>pending := rest\<rparr>,
              txCnt := txCnt p + 1, txBytes := txBytes p + of_nat (length buf)\<rparr>)
       \<and> Task_body tc task q =
           (Continue, q\<lparr>tx := (tx q)\<lparr>sent := sent (tx q) @ frame tbuf\<rparr>,
                        txCnt := txCnt q + 1, txBytes := txBytes q + of_nat (4 + length tbuf)\<rparr>)
       \<and> ReceiveTask tc cl = (Inr task, cl\<lparr>reader := (reader cl)\<lparr>pending := rest'\<rparr>\<rparr>)"
proof -
  have a: "SendRecord rc c rec =
           (None, c\<lparr>writer := (writer c)\<lparr>sent := sent (writer c) @ frame buf\<rparr>\<rparr>,
            rec\<lparr>Timestamp := clock c\<rparr>)"
    using assms(2,3,4) by (rule SendRecord_frame)
  have b: "receiveDataWithSize rc p =
           (Inr (rec\<lparr>Timestamp := clock c\<rparr>),
            p\<lparr>plugin_reader := (plugin_reader p)\<lparr>pending := rest\<rparr>,
              txCnt := txCnt p + 1, txBytes := txBytes p + of_nat (length buf)\<rparr>)"
    by (simp add: receiveDataWithSize_frame [OF assms(6) assms(1)] assms(5))
  have c: "Task_body tc task q =
           (Continue, q\<lparr>tx := (tx q)\<lparr>sent := sent (tx q) @ frame tbuf\<rparr>,
                        txCnt := txCnt q + 1, txBytes := txBytes q + of_nat (4 + length tbuf)\<rparr>)"
    using assms(8,9,10) by (rule Task_body_frame)
  have d: "ReceiveTask tc cl = (Inr task, cl\<lparr>reader := (reader cl)\<lparr>pending := rest'\<rparr>\<rparr>)"
    by (simp add: ReceiveTask_frame [OF assms(12) assms(7) assms(13)] assms(11))
  from a b c d show ?thesis by (intro conjI)
qed

theorem frame_roundtrip_witness:
  "SendRecord example_record_codec (example_client [] 4096 5) \<lparr>Timestamp = 0, Data = [1, 2]\<rparr> =
     (None,
      (example_client [] 4096 5)\<lparr>writer := \<lparr>sent = [3, 0, 0, 0, 5, 1, 2], broken = None\<rparr>\<rparr>,
      \<lparr>Timestamp = 5, Data = [1, 2]\<rparr>)
   \<and> fst (receiveDataWithSize example_record_codec (NewPlugin [3, 0, 0, 0, 5, 1, 2] EOF 0)) =
       Inr \<lparr>Timestamp = 5, Data = [1, 2]\<rparr>
   \<and> sent (tx (snd (Task_body example_task_codec [8, 9] (NewPlugin [] EOF 0)))) = [2, 0, 0, 0, 8, 9]
   \<and> ReceiveTask example_task_codec (example_client [2, 0, 0, 0, 8, 9] 4096 5) =
       (Inr [8, 9], example_client [] 4096 5)"
proof -
  let ?c = "example_client [] 4096 5"
  let ?cl = "example_client [2, 0, 0, 0, 8, 9] 4096 5"
  let ?rec = "\<lparr>Timestamp = 0, Data = [1, 2 :: byte]\<rparr>"
  let ?p = "NewPlugin [3, 0, 0, 0, 5, 1, 2] EOF 0"
  let ?q = "NewPlugin [] EOF 0"
  have f1: "frame [5, 1, 2] = [3, 0, 0, 0, 5, 1, 2]" and f2: "frame [8, 9] = [2, 0, 0, 0, 8, 9]"
    by (simp_all add: frame_def PutUint32_def)
  have t: "SendRecord example_record_codec ?c ?rec =
           (None, ?c\<lparr>writer := (writer ?c)\<lparr>sent := sent (writer ?c) @ frame [5, 1, 2]\<rparr>\<rparr>,
            ?rec\<lparr>Timestamp := clock ?c\<rparr>)
       \<and> receiveDataWithSize example_record_codec ?p =
           (Inr (?rec\<lparr>Timestamp := clock ?c\<rparr>),
            ?p\<lparr>plugin_reader := (plugin_reader ?p)\<lparr>pending := []\<rparr>,
              txCnt := txCnt ?p + 1, txBytes := txBytes ?p + of_nat (length [5, 1, 2 :: byte])\<rparr>)
       \<and> Task_body example_task_codec [8, 9] ?q =
           (Continue, ?q\<lparr>tx := (tx ?q)\<lparr>sent := sent (tx ?q) @ frame [8, 9]\<rparr>,
                        txCnt := txCnt ?q + 1, txBytes := txBytes ?q + of_nat (4 + length [8, 9 :: byte])\<rparr>)
       \<and> ReceiveTask example_task_codec ?cl = (Inr [8, 9], ?cl\<lparr>reader := (reader ?cl)\<lparr>pending := []\<rparr>\<rparr>)"
    by (rule frame_roundtrip [where buf = "[5, 1, 2]" and tbuf = "[8, 9]"])
       (simp_all add: example_record_codec_def example_task_codec_def example_client_def
          NewPlugin_def NewReaderSize_def f1 f2)
  then show ?thesis
    by (simp add: f1 f2 NewPlugin_def example_client_def NewReaderSize_def)
qed

text \<open>
  C1 as stated fails on the client's side. The agent writes the frame of a task of
  128 KiB + 1 bytes, and a client whose reader has a buffer of 128 KiB answers
  \<open>ErrBufferFull\<close> instead of the task, with the payload left in the stream.
\<close>

theorem frame_roundtrip_counterexample:
  "length big_task < 2 ^ 32
   \<and> Task_body example_task_codec big_task (NewPlugin [] EOF 0) =
       (Continue, (NewPlugin [] EOF 0)\<lparr>tx := \<lparr>sent = frame big_task, broken = None\<rparr>,
                                        txCnt := 1, txBytes := 131077\<rparr>)
   \<and> ReceiveTask example_task_codec (example_client (frame big_task) (1024 * 128) 0) =
       (Inl ErrBufferFull, example_client big_task (1024 * 128) 0)"
proof -
  have a: "Task_body example_task_codec big_task (NewPlugin [] EOF 0) =
       (Continue, (NewPlugin [] EOF 0)\<lparr>tx := \<lparr>sent = frame big_task, broken = None\<rparr>,
                                        txCnt := 1, txBytes := 131077\<rparr>)"
    by (subst Task_body_frame [where buf = big_task])
       (simp_all add: example_task_codec_def NewPlugin_def length_big_task)
  have u: "unat (of_nat (length big_task) :: 32 word) = 131073"
    by (simp add: length_big_task)
  have b: "ReceiveTask example_task_codec (example_client (frame big_task) (1024 * 128) 0) =
       (Inl ErrBufferFull, example_client big_task (1024 * 128) 0)"
    by (subst ReceiveTask_oversize [where l = "of_nat (length big_task)" and rest = big_task])
       (simp_all add: example_client_def NewReaderSize_def frame_def u)
  show ?thesis using a b by (simp add: length_big_task)
qed




text \<open>
  C10. When the length prefix exceeds the buffer of the client's reader, \<^verbatim>\<open>ReceiveTask\<close>
  returns \<open>ErrBufferFull\<close> having consumed the four prefix bytes only; the payload stays
  in the stream, and the next call takes the first four payload bytes for a length
  prefix and, when that many bytes follow and fit the buffer, the payload bytes after
  them for a task.
\<close>

theorem ReceiveTask_oversize_desync:
  assumes "pending (reader c) = PutUint32 l @ payload"
    and "bufsize (reader c) < unat l"
  shows "ReceiveTask tc c = (Inl ErrBufferFull, c\<lparr>reader := (reader c)\<lparr>pending := payload\<rparr>\<rparr>)
       \<and> length (pending (reader (snd (ReceiveTask tc c)))) + 4 = length (pending (reader c))
       \<and> (\<forall>l' body rest. payload = PutUint32 l' @ body @ rest \<longrightarrow>
            binary_Read (reader (snd (ReceiveTask tc c))) =
              (Inr l', (reader c)\<lparr>pending := body @ rest\<rparr>)
            \<and> (length body = unat l' \<and> unat l' \<le> bufsize (reader c) \<longrightarrow>
                 ReceiveTask tc (snd (ReceiveTask tc c)) =
                   (Unmarshal tc body, c\<lparr>reader := (reader c)\<lparr>pending := rest\<rparr>\<rparr>)))"
proof -
  have a: "ReceiveTask tc c = (Inl ErrBufferFull, c\<lparr>reader := (reader c)\<lparr>pending := payload\<rparr>\<rparr>)"
    using assms by (rule ReceiveTask_oversize)
  have b: "length (pending (reader (snd (ReceiveTask tc c)))) + 4 = length (pending (reader c))"
    using assms(1) by (simp add: a length_PutUint32)
  have c: "\<forall>l' body rest. payload = PutUint32 l' @ body @ rest \<longrightarrow>
            binary_Read (reader (snd (ReceiveTask tc c))) =
              (Inr l', (reader c)\<lparr>pending := body @ rest\<rparr>)
            \<and> (length body = unat l' \<and> unat l' \<le> bufsize (reader c) \<longrightarrow>
                 ReceiveTask tc (snd (ReceiveTask tc c)) =
                   (Unmarshal tc body, c\<lparr>reader := (reader c)\<lparr>pending := rest\<rparr>\<rparr>))"
  proof (intro allI impI conjI)
    fix l' body rest
    assume p: "payload = PutUint32 l' @ body @ rest"
    then show "binary_Read (reader (snd (ReceiveTask tc c))) =
              (Inr l', (reader c)\<lparr>pending := body @ rest\<rparr>)"
      by (simp add: a binary_Read_prefix)
    assume "length body = unat l' \<and> unat l' \<le> bufsize (reader c)"
    then have lb: "length body = unat l'"
      and fit: "unat l' \<le> bufsize (reader (c\<lparr>reader := (reader c)\<lparr>pending := payload\<rparr>\<rparr>))"
      by simp_all
    from p have "pending (reader (c\<lparr>reader := (reader c)\<lparr>pending := payload\<rparr>\<rparr>))
                 = PutUint32 l' @ body @ rest"
      by simp
    from ReceiveTask_declared [OF this lb fit, of tc]
    show "ReceiveTask tc (snd (ReceiveTask tc c)) =
            (Unmarshal tc body, c\<lparr>reader := (reader c)\<lparr>pending := rest\<rparr>\<rparr>)"
      by (simp add: a)
  qed
  from a b c show ?thesis by (intro conjI)
qed

theorem ReceiveTask_oversize_desync_witness:
  "ReceiveTask example_task_codec
     (example_client ([17, 0, 0, 0] @ [2, 0, 0, 0, 8, 9] @ replicate 11 0) 16 0) =
     (Inl ErrBufferFull, example_client ([2, 0, 0, 0, 8, 9] @ replicate 11 0) 16 0)
   \<and> binary_Read (reader (example_client ([2, 0, 0, 0, 8, 9] @ replicate 11 0) 16 0)) =
       (Inr 2, reader (example_client ([8, 9] @ replicate 11 0) 16 0))
   \<and> ReceiveTask example_task_codec (example_client ([2, 0, 0, 0, 8, 9] @ replicate 11 0) 16 0) =
       (Inr [8, 9], example_client (replicate 11 0) 16 0)"
proof -
  let ?c = "example_client ([17, 0, 0, 0] @ [2, 0, 0, 0, 8, 9] @ replicate 11 0) 16 0"
  let ?payload = "[2, 0, 0, 0, 8, 9] @ replicate 11 (0 :: byte)"
  have h1: "pending (reader ?c) = PutUint32 17 @ ?payload"
    by (simp add: example_client_def NewReaderSize_def PutUint32_def)
  have h2: "bufsize (reader ?c) < unat (17 :: 32 word)"
    by (simp add: example_client_def NewReaderSize_def)
  have h3: "?payload = PutUint32 2 @ [8, 9] @ replicate 11 0"
    by (simp add: PutUint32_def)
  have h4: "length [8, 9 :: byte] = unat (2 :: 32 word) \<and> unat (2 :: 32 word) \<le> bufsize (reader ?c)"
    by (simp add: example_client_def NewReaderSize_def)
  from ReceiveTask_oversize_desync [OF h1 h2, of example_task_codec] h3 h4
  have a: "ReceiveTask example_task_codec ?c =
             (Inl ErrBufferFull, ?c\<lparr>reader := (reader ?c)\<lparr>pending := ?payload\<rparr>\<rparr>)"
    and b: "binary_Read (reader (snd (ReceiveTask example_task_codec ?c))) =
              (Inr 2, (reader ?c)\<lparr>pending := [8, 9] @ replicate 11 0\<rparr>)"
    and n: "ReceiveTask example_task_codec (snd (ReceiveTask example_task_codec ?c)) =
              (Unmarshal example_task_codec [8, 9], ?c\<lparr>reader := (reader ?c)\<lparr>pending := replicate 11 0\<rparr>\<rparr>)"
    by blast+
  have e: "?c\<lparr>reader := (reader ?c)\<lparr>pending := ?payload\<rparr>\<rparr> = example_client ?payload 16 0"
    and e2: "(reader ?c)\<lparr>pending := [8, 9] @ replicate 11 0\<rparr> = reader (example_client ([8, 9] @ replicate 11 0) 16 0)"
    by (simp_all add: example_client_def NewReaderSize_def)
  from b have b': "binary_Read (reader (example_client ?payload 16 0)) =
              (Inr 2, reader (example_client ([8, 9] @ replicate 11 0) 16 0))"
    unfolding a e e2 by simp
  have e3: "?c\<lparr>reader := (reader ?c)\<lparr>pending := replicate 11 0\<rparr>\<rparr> = example_client (replicate 11 0) 16 0"
    by (simp add: example_client_def NewReaderSize_def)
  from n have n': "ReceiveTask example_task_codec (example_client ?payload 16 0) =
              (Inr [8, 9], example_client (replicate 11 0) 16 0)"
    unfolding a e e3 by (simp add: example_task_codec_def)
  from a b' n' show ?thesis
    unfolding e by (intro conjI)
qed

text \<open>
  C6. The code run on one valid frame of three payload bytes: the record reaches the sink
  tagged \<open>False\<close> (not debug), but the counters that move are \<open>txCnt\<close> and \<open>txBytes\<close>;
  \<open>rxCnt\<close> and \<open>rxBytes\<close> stay 0.
\<close>

theorem Receive_counts_tx:
  "Receive example_record_codec (NewPlugin (frame [5, 1, 2]) EOF 0) [] =
     Some (\<lparr>rxBytes = 0, rxCnt = 0, tx = \<lparr>sent = [], broken = None\<rparr>, txBytes = 3, txCnt = 1,
            updateTime = 0, plugin_reader = NewReaderSize [] EOF plugin_bufsize,
            logger = [(ErrorLevel, ''exit the receive task:'')]\<rparr>,
           [(\<lparr>Timestamp = 5, Data = [1, 2]\<rparr>, False)])"
proof -
  let ?p = "NewPlugin (frame [5, 1, 2]) EOF 0"
  let ?p1 = "?p\<lparr>plugin_reader := (plugin_reader ?p)\<lparr>pending := []\<rparr>,
                txCnt := txCnt ?p + 1, txBytes := txBytes ?p + of_nat (length [5, 1, 2 :: byte])\<rparr>"
  have a: "Receive example_record_codec ?p [] =
           Receive example_record_codec ?p1 ([] @ [(\<lparr>Timestamp = 5, Data = [1, 2]\<rparr>, False)])"
    by (rule Receive_frame) (simp_all add: NewPlugin_def NewReaderSize_def example_record_codec_def)
  have b: "Receive example_record_codec ?p1 ([] @ [(\<lparr>Timestamp = 5, Data = [1, 2]\<rparr>, False)]) =
           Some (log ErrorLevel ''exit the receive task:'' ?p1,
                 [] @ [(\<lparr>Timestamp = 5, Data = [1, 2]\<rparr>, False)])"
    by (rule Receive_end) (simp_all add: NewPlugin_def NewReaderSize_def)
  have c: "Some (log ErrorLevel ''exit the receive task:'' ?p1,
                 [] @ [(\<lparr>Timestamp = 5, Data = [1, 2 :: byte]\<rparr>, False)]) =
     Some (\<lparr>rxBytes = 0, rxCnt = 0, tx = \<lparr>sent = [], broken = None\<rparr>, txBytes = 3, txCnt = 1,
            updateTime = 0, plugin_reader = NewReaderSize [] EOF plugin_bufsize,
            logger = [(ErrorLevel, ''exit the receive task:'')]\<rparr>,
           [(\<lparr>Timestamp = 5, Data = [1, 2]\<rparr>, False)])"
    by (simp add: log_def NewPlugin_def NewReaderSize_def)
  show ?thesis
    by (rule trans [OF a trans [OF b c]])
qed




section \<open>Claims about the client's send paths\<close>

text \<open>
  C8 (as amended). \<^verbatim>\<open>SendElkeid\<close> leaves the record as it is and never looks at the hook;
  when the writer is open and the record marshals, it writes the four bytes of
  \<^verbatim>\<open>rec.Size()\<close> and then the payload directly to the writer.
\<close>

theorem SendElkeid_direct:
  "snd (snd (SendElkeid rc c rec)) = rec
   \<and> hook (fst (snd (SendElkeid rc c rec))) = hook c
   \<and> (broken (writer c) = None \<and> Marshal rc rec = Inr buf \<longrightarrow>
        SendElkeid rc c rec =
          (None,
           c\<lparr>writer := (writer c)\<lparr>sent := sent (writer c) @ PutUint32 (of_nat (Size rc rec)) @ buf\<rparr>\<rparr>,
           rec))"
  by (simp add: SendElkeid_def binary_Write_def Write_def Let_def split: option.splits sum.splits prod.splits)

theorem SendElkeid_direct_witness:
  "SendElkeid example_record_codec
     ((example_client [] 4096 5)\<lparr>hook := Some (\<lambda>r. Some (ErrorsNew ''hook''))\<rparr>)
     \<lparr>Timestamp = 1, Data = [1, 2]\<rparr> =
   (None,
    (example_client [] 4096 5)\<lparr>writer := \<lparr>sent = [3, 0, 0, 0, 1, 1, 2], broken = None\<rparr>,
                                hook := Some (\<lambda>r. Some (ErrorsNew ''hook''))\<rparr>,
    \<lparr>Timestamp = 1, Data = [1, 2]\<rparr>)"
proof -
  let ?c = "(example_client [] 4096 5)\<lparr>hook := Some (\<lambda>r. Some (ErrorsNew ''hook''))\<rparr>"
  let ?r = "\<lparr>Timestamp = 1, Data = [1, 2 :: byte]\<rparr>"
  have h: "broken (writer ?c) = None \<and> Marshal example_record_codec ?r = Inr [1, 1, 2]"
    by (simp add: example_record_codec_def example_client_def)
  from SendElkeid_direct [of example_record_codec ?c ?r "[1, 1, 2]"] h
  have "SendElkeid example_record_codec ?c ?r =
          (None,
           ?c\<lparr>writer := (writer ?c)\<lparr>sent := sent (writer ?c)
               @ PutUint32 (of_nat (Size example_record_codec ?r)) @ [1, 1, 2]\<rparr>\<rparr>, ?r)"
    by blast
  then show ?thesis
    by (simp add: example_record_codec_def example_client_def PutUint32_def)
qed

text \<open>
  C8 as stated fails in its first half: with the clock at 5 and a hook installed, a record
  with timestamp 0 is written with timestamp 0 and comes back unchanged.
\<close>

theorem SendElkeid_counterexample:
  "SendElkeid example_record_codec
     ((example_client [] 4096 5)\<lparr>hook := Some (\<lambda>r. Some (ErrorsNew ''hook''))\<rparr>)
     \<lparr>Timestamp = 0, Data = [1, 2]\<rparr> =
   (None,
    (example_client [] 4096 5)\<lparr>writer := \<lparr>sent = [3, 0, 0, 0, 0, 1, 2], broken = None\<rparr>,
                                hook := Some (\<lambda>r. Some (ErrorsNew ''hook''))\<rparr>,
    \<lparr>Timestamp = 0, Data = [1, 2]\<rparr>)"
  by (simp add: SendElkeid_def example_record_codec_def example_client_def binary_Write_def
        Write_def PutUint32_def)

section \<open>Claims about the traffic rates\<close>

lemma Sub_zero_iff: "Sub t u = 0 \<longleftrightarrow> t = u"
  by (auto simp add: Sub_def max_def min_def)

text \<open>
  C4 (as amended). A call of \<^verbatim>\<open>GetState\<close> at an instant other than \<open>updateTime\<close> sets the
  four counters to zero, and the call after it, whenever it comes, reports four zero rates
  if no traffic was counted in between. A call at \<open>updateTime\<close> itself reports four zero
  rates and leaves the counters as they are.
\<close>

theorem GetState_resets:
  "(now \<noteq> updateTime p \<longrightarrow>
      snd (GetState p now) = p\<lparr>rxBytes := 0, txBytes := 0, rxCnt := 0, txCnt := 0, updateTime := now\<rparr>
      \<and> fst (GetState (snd (GetState p now)) now') = (0, 0, 0, 0))
   \<and> (now = updateTime p \<longrightarrow>
      GetState p now = ((0, 0, 0, 0), p))"
  by (simp add: GetState_def Seconds_zero_iff Sub_zero_iff Let_def)

theorem GetState_resets_witness:
  "snd (GetState ((NewPlugin [] EOF 0)\<lparr>rxBytes := 1000\<rparr>) 2000000000) =
     (NewPlugin [] EOF 0)\<lparr>updateTime := 2000000000\<rparr>
   \<and> fst (GetState ((NewPlugin [] EOF 0)\<lparr>rxBytes := 1000\<rparr>) 2000000000) = (500, 0, 0, 0)
   \<and> fst (GetState (snd (GetState ((NewPlugin [] EOF 0)\<lparr>rxBytes := 1000\<rparr>) 2000000000)) 2000000000)
       = (0, 0, 0, 0)
   \<and> GetState ((NewPlugin [] EOF 7)\<lparr>rxBytes := 1000\<rparr>) 7 = ((0, 0, 0, 0), (NewPlugin [] EOF 7)\<lparr>rxBytes := 1000\<rparr>)"
proof -
  let ?p = "(NewPlugin [] EOF 0)\<lparr>rxBytes := 1000\<rparr>"
  let ?q = "(NewPlugin [] EOF 7)\<lparr>rxBytes := 1000\<rparr>"
  have h1: "2000000000 \<noteq> updateTime ?p" by (simp add: NewPlugin_def)
  have h2: "7 = updateTime ?q" by (simp add: NewPlugin_def)
  from GetState_resets [of 2000000000 ?p 2000000000] h1
  have a: "snd (GetState ?p 2000000000) =
             ?p\<lparr>rxBytes := 0, txBytes := 0, rxCnt := 0, txCnt := 0, updateTime := 2000000000\<rparr>"
    and b: "fst (GetState (snd (GetState ?p 2000000000)) 2000000000) = (0, 0, 0, 0)"
    by blast+
  from GetState_resets [of 7 ?q 0] h2
  have c: "GetState ?q 7 = ((0, 0, 0, 0), ?q)"
    by blast
  have d: "fst (GetState ?p 2000000000) = (500, 0, 0, 0)"
    by (simp add: GetState_def NewPlugin_def Sub_def Seconds_eq)
  have e: "?p\<lparr>rxBytes := 0, txBytes := 0, rxCnt := 0, txCnt := 0, updateTime := 2000000000\<rparr>
           = (NewPlugin [] EOF 0)\<lparr>updateTime := 2000000000\<rparr>"
    by (simp add: NewPlugin_def)
  from a b c d e show ?thesis by simp
qed

text \<open>
  C4 as stated fails when no time has passed: 1000 received bytes are still counted after
  the call.
\<close>

theorem GetState_zero_interval_counterexample:
  "rxBytes (snd (GetState ((NewPlugin [] EOF 7)\<lparr>rxBytes := 1000\<rparr>) 7)) = 1000
   \<and> fst (GetState ((NewPlugin [] EOF 7)\<lparr>rxBytes := 1000\<rparr>) 7) = (0, 0, 0, 0)"
  by (simp add: GetState_def NewPlugin_def Sub_def Seconds_zero_iff)

section \<open>Properties of the dispatcher\<close>

lemma done_not_parked_step:
  assumes "done_closed d \<longrightarrow> task_at d \<noteq> TkParked" and "dispatch_step codec a d = Some d'"
  shows "done_closed d' \<longrightarrow> task_at d' \<noteq> TkParked"
proof (cases a)
  case (CallSendTask t)
  with assms show ?thesis
    by (auto simp add: SendTask_def split: task_pc.splits)
next
  case TaskStep
  with assms show ?thesis
    by (auto simp add: Task_step_def split: task_pc.splits ctl.splits prod.splits if_splits)
next
  case CloseDone
  with assms show ?thesis
    by (auto split: if_splits)
next
  case CloseTx
  with assms show ?thesis by auto
qed

lemma done_not_parked_exec:
  assumes "done_closed d \<longrightarrow> task_at d \<noteq> TkParked" and "dispatch_exec codec sched d = Some d'"
  shows "done_closed d' \<longrightarrow> task_at d' \<noteq> TkParked"
  using assms
proof (induction sched arbitrary: d)
  case Nil
  then show ?case by simp
next
  case (Cons a sched)
  from Cons.prems(2) obtain d1 where 1: "dispatch_step codec a d = Some d1"
    and 2: "dispatch_exec codec sched d1 = Some d'"
    by (auto split: option.splits)
  from done_not_parked_step [OF Cons.prems(1) 1] have "done_closed d1 \<longrightarrow> task_at d1 \<noteq> TkParked" .
  from Cons.IH [OF this 2] show ?case .
qed

lemma answers_step:
  assumes "task_at d \<noteq> TkParked" and "dispatch_step codec a d = Some d'"
  shows "answers d' = answers d @ replicate (sends [a]) (Some ErrBusy)"
proof (cases a)
  case (CallSendTask t)
  with assms show ?thesis
    by (auto simp add: SendTask_def split: task_pc.splits)
next
  case TaskStep
  with assms show ?thesis
    by (auto simp add: Task_step_def split: task_pc.splits ctl.splits prod.splits)
next
  case CloseDone
  with assms show ?thesis by (auto split: if_splits)
next
  case CloseTx
  with assms show ?thesis by auto
qed

lemma sends_Cons: "sends (a # as) = sends [a] + sends as"
  by (cases a) simp_all

lemma stopped_step:
  assumes "done_closed d \<or> task_at d = TkReturned" and "task_at d \<noteq> TkParked"
    and "dispatch_step codec a d = Some d'"
  shows "(done_closed d' \<or> task_at d' = TkReturned) \<and> task_at d' \<noteq> TkParked"
proof (cases a)
  case (CallSendTask t)
  with assms show ?thesis
    by (auto simp add: SendTask_def split: task_pc.splits)
next
  case TaskStep
  with assms show ?thesis
    by (auto simp add: Task_step_def split: task_pc.splits ctl.splits prod.splits if_splits)
next
  case CloseDone
  with assms show ?thesis
    by (auto split: if_splits)
next
  case CloseTx
  with assms show ?thesis by auto
qed

lemma answers_after_stopped:
  assumes "done_closed d \<or> task_at d = TkReturned" and "task_at d \<noteq> TkParked"
    and "dispatch_exec codec later d = Some d'"
  shows "(done_closed d' \<or> task_at d' = TkReturned) \<and> task_at d' \<noteq> TkParked
       \<and> answers d' = answers d @ replicate (sends later) (Some ErrBusy)"
  using assms
proof (induction later arbitrary: d)
  case Nil
  then show ?case by simp
next
  case (Cons a later)
  from Cons.prems(3) obtain d1 where 1: "dispatch_step codec a d = Some d1"
    and 2: "dispatch_exec codec later d1 = Some d'"
    by (auto split: option.splits)
  from stopped_step [OF Cons.prems(1,2) 1]
  have s: "done_closed d1 \<or> task_at d1 = TkReturned" and np: "task_at d1 \<noteq> TkParked"
    by simp_all
  from Cons.IH [OF s np 2] answers_step [OF Cons.prems(2) 1]
  show ?case
    by (simp add: sends_Cons [of a later] replicate_add)
qed

lemma dispatch_exec_append:
  "dispatch_exec codec (xs @ ys) d =
     (case dispatch_exec codec xs d of None \<Rightarrow> None | Some d' \<Rightarrow> dispatch_exec codec ys d')"
  by (induction xs arbitrary: d) (auto split: option.splits)

lemma busy_run_result:
  "dispatch_exec example_task_codec busy_run (NewDispatcher (NewPlugin [] EOF 0)) =
     Some \<lparr>plugin = (NewPlugin [] EOF 0)\<lparr>tx := \<lparr>sent = [1, 0, 0, 0, 1], broken = None\<rparr>,
                                          txBytes := 5, txCnt := 1\<rparr>,
           done_closed = True, task_at = TkWoken, answers = [None, Some ErrBusy]\<rparr>"
  by (simp add: busy_run_def NewDispatcher_def NewPlugin_def SendTask_def Task_step_def
        Task_body_def example_task_codec_def Write_def PutUint32_def Let_def)

lemma busy_run_later:
  "dispatch_exec example_task_codec (busy_run @ [CallSendTask [3], TaskStep, CallSendTask [4]])
     (NewDispatcher (NewPlugin [] EOF 0)) =
     Some \<lparr>plugin = (NewPlugin [] EOF 0)\<lparr>tx := \<lparr>sent = [1, 0, 0, 0, 1], broken = None\<rparr>,
                                          txBytes := 5, txCnt := 1\<rparr>,
           done_closed = True, task_at = TkReturned,
           answers = [None, Some ErrBusy, Some ErrBusy, Some ErrBusy]\<rparr>"
  by (simp add: busy_run_def NewDispatcher_def NewPlugin_def SendTask_def Task_step_def
        Task_body_def example_task_codec_def Write_def PutUint32_def Let_def)

text \<open>
  C3 (as amended). \<^verbatim>\<open>SendTask\<close> never waits: after every run of the supervisor a call
  completes at once. It hands the task over exactly when the loop of \<^verbatim>\<open>Task\<close> is parked in
  its \<^verbatim>\<open>select\<close>, and returns the busy error and changes nothing in every other state:
  while a task is being written, while the loop is on its way to the \<^verbatim>\<open>select\<close> (also when
  nothing has ever been queued), and after the loop has returned. Once \<^verbatim>\<open>done\<close> is closed
  or the loop has returned, this stays so in every continuation, and every later call of
  \<^verbatim>\<open>SendTask\<close> returns the busy error.
\<close>

theorem SendTask_never_blocks:
  assumes "dispatch_exec codec sched (NewDispatcher p) = Some d"
  shows "dispatch_exec codec (sched @ [CallSendTask task]) (NewDispatcher p) =
           Some ((snd (SendTask task d))\<lparr>answers := answers d @ [fst (SendTask task d)]\<rparr>)
       \<and> (fst (SendTask task d) = None \<longleftrightarrow> task_at d = TkParked)
       \<and> (task_at d = TkParked \<longrightarrow> SendTask task d = (None, d\<lparr>task_at := TkGot task\<rparr>))
       \<and> (task_at d \<noteq> TkParked \<longrightarrow> SendTask task d = (Some ErrBusy, d))
       \<and> (done_closed d \<or> task_at d = TkReturned \<longrightarrow> SendTask task d = (Some ErrBusy, d))
       \<and> (\<forall>later d'. (done_closed d \<or> task_at d = TkReturned)
              \<and> dispatch_exec codec later d = Some d' \<longrightarrow>
            (done_closed d' \<or> task_at d' = TkReturned)
            \<and> answers d' = answers d @ replicate (sends later) (Some ErrBusy))"
proof -
  have "done_closed (NewDispatcher p :: 'a Dispatcher) \<longrightarrow> task_at (NewDispatcher p :: 'a Dispatcher) \<noteq> TkParked"
    by (simp add: NewDispatcher_def)
  from done_not_parked_exec [OF this assms]
  have inv: "done_closed d \<longrightarrow> task_at d \<noteq> TkParked" .
  then have np: "done_closed d \<or> task_at d = TkReturned \<Longrightarrow> task_at d \<noteq> TkParked"
    by auto
  have 1: "dispatch_exec codec (sched @ [CallSendTask task]) (NewDispatcher p) =
           Some ((snd (SendTask task d))\<lparr>answers := answers d @ [fst (SendTask task d)]\<rparr>)"
    by (simp add: dispatch_exec_append assms SendTask_def split: prod.splits task_pc.splits)
  have 2: "fst (SendTask task d) = None \<longleftrightarrow> task_at d = TkParked"
    by (simp add: SendTask_def split: task_pc.splits)
  have 3: "task_at d = TkParked \<longrightarrow> SendTask task d = (None, d\<lparr>task_at := TkGot task\<rparr>)"
    by (simp add: SendTask_def)
  have 4: "task_at d \<noteq> TkParked \<longrightarrow> SendTask task d = (Some ErrBusy, d)"
    by (simp add: SendTask_def split: task_pc.splits)
  from np 4 have 5: "done_closed d \<or> task_at d = TkReturned \<longrightarrow> SendTask task d = (Some ErrBusy, d)"
    by blast
  have 6: "\<forall>later d'. (done_closed d \<or> task_at d = TkReturned)
              \<and> dispatch_exec codec later d = Some d' \<longrightarrow>
            (done_closed d' \<or> task_at d' = TkReturned)
            \<and> answers d' = answers d @ replicate (sends later) (Some ErrBusy)"
  proof (intro allI impI)
    fix later d'
    assume a: "(done_closed d \<or> task_at d = TkReturned) \<and> dispatch_exec codec later d = Some d'"
    then have s: "done_closed d \<or> task_at d = TkReturned" by simp
    from a np have n: "task_at d \<noteq> TkParked" by blast
    from a have e: "dispatch_exec codec later d = Some d'" by simp
    from answers_after_stopped [OF s n e]
    show "(done_closed d' \<or> task_at d' = TkReturned)
            \<and> answers d' = answers d @ replicate (sends later) (Some ErrBusy)"
      by simp
  qed
  from 1 2 3 4 5 6 show ?thesis by (intro conjI)
qed

theorem SendTask_never_blocks_witness:
  "dispatch_exec example_task_codec busy_run (NewDispatcher (NewPlugin [] EOF 0)) =
     Some \<lparr>plugin = (NewPlugin [] EOF 0)\<lparr>tx := \<lparr>sent = [1, 0, 0, 0, 1], broken = None\<rparr>,
                                          txBytes := 5, txCnt := 1\<rparr>,
           done_closed = True, task_at = TkWoken, answers = [None, Some ErrBusy]\<rparr>
   \<and> fst (SendTask [3] (the (dispatch_exec example_task_codec busy_run
        (NewDispatcher (NewPlugin [] EOF 0))))) = Some ErrBusy
   \<and> answers (the (dispatch_exec example_task_codec (busy_run @ [CallSendTask [3]])
        (NewDispatcher (NewPlugin [] EOF 0)))) = [None, Some ErrBusy, Some ErrBusy]
   \<and> answers (the (dispatch_exec example_task_codec (busy_run @ [CallSendTask [3], TaskStep, CallSendTask [4]])
        (NewDispatcher (NewPlugin [] EOF 0)))) = [None, Some ErrBusy, Some ErrBusy, Some ErrBusy]"
proof -
  from SendTask_never_blocks [OF busy_run_result, of "[3]"]
  have "fst (SendTask [3] (the (dispatch_exec example_task_codec busy_run
        (NewDispatcher (NewPlugin [] EOF 0))))) = Some ErrBusy
      \<and> answers (the (dispatch_exec example_task_codec (busy_run @ [CallSendTask [3]])
        (NewDispatcher (NewPlugin [] EOF 0)))) = [None, Some ErrBusy, Some ErrBusy]"
    by (simp add: busy_run_result)
  with busy_run_result busy_run_later show ?thesis by simp
qed

text \<open>
  C3 as stated fails twice. It lets a call succeed whenever no task is occupying the slot:
  but on a supervisor that has just been made, with nothing ever queued and the loop of
  \<^verbatim>\<open>Task\<close> not yet in its \<^verbatim>\<open>select\<close>, \<^verbatim>\<open>SendTask\<close> returns the busy error. And it lets
  every call fail once the supervisor is past running: but after the writing end of the
  pipe has been closed, while \<^verbatim>\<open>done\<close> is still open and the loop is parked, \<^verbatim>\<open>SendTask\<close>
  returns \<^verbatim>\<open>nil\<close>; the loop then fails to write the task, which is lost, and returns.
\<close>

theorem SendTask_never_blocks_counterexample:
  "SendTask [1 :: byte] (NewDispatcher (NewPlugin [] EOF 0)) =
     (Some ErrBusy, NewDispatcher (NewPlugin [] EOF 0))
   \<and> dispatch_exec example_task_codec [TaskStep, CloseTx, CallSendTask [1], TaskStep]
       (NewDispatcher (NewPlugin [] EOF 0)) =
     Some \<lparr>plugin = (NewPlugin [] EOF 0)\<lparr>tx := \<lparr>sent = [], broken = Some ErrClosed\<rparr>\<rparr>,
           done_closed = False, task_at = TkReturned, answers = [None]\<rparr>"
  by (simp add: NewDispatcher_def NewPlugin_def SendTask_def Task_step_def
        Task_body_def example_task_codec_def Write_def PutUint32_def Let_def)

section \<open>Properties of the life cycle\<close>

lemma goto_sel [simp]:
  "shutdown_at (goto i pc w) = (shutdown_at w)(i := pc)"
  "pid (goto i pc w) = pid w"
  "alive (goto i pc w) = alive w"
  "ProcessState (goto i pc w) = ProcessState w"
  "rx_pipe (goto i pc w) = rx_pipe w"
  "tx_pipe (goto i pc w) = tx_pipe w"
  "done_closes (goto i pc w) = done_closes w"
  "panicked (goto i pc w) = panicked w"
  "kills (goto i pc w) = kills w"
  "time_ns (goto i pc w) = time_ns w"
  "deadline (goto i pc w) = deadline w"
  "mu (goto i pc w) = mu w"
  "wait_at (goto i pc w) = wait_at w"
  "shutdown_log (goto i pc w) = shutdown_log w"
  by (simp_all add: goto_def)

lemma slog_sel [simp]:
  "shutdown_at (slog lv msg w) = shutdown_at w"
  "pid (slog lv msg w) = pid w"
  "alive (slog lv msg w) = alive w"
  "ProcessState (slog lv msg w) = ProcessState w"
  "rx_pipe (slog lv msg w) = rx_pipe w"
  "tx_pipe (slog lv msg w) = tx_pipe w"
  "done_closes (slog lv msg w) = done_closes w"
  "panicked (slog lv msg w) = panicked w"
  "kills (slog lv msg w) = kills w"
  "time_ns (slog lv msg w) = time_ns w"
  "deadline (slog lv msg w) = deadline w"
  "mu (slog lv msg w) = mu w"
  "wait_at (slog lv msg w) = wait_at w"
  "shutdown_log (slog lv msg w) = shutdown_log w @ [(lv, msg)]"
  by (simp_all add: slog_def)

lemma closed_once_Close:
  assumes "closed_once f cs" and "who \<notin> cs"
  shows "closed_once (File_Close who f) (insert who cs)"
  using assms
  by (cases "close_calls f") (auto simp add: closed_once_def File_Close_def)

lemma Collect_upd_same:
  assumes "P y = P (f i)"
  shows "{j. P ((f(i := y)) j)} = {j. P (f j)}"
  using assms by auto

lemma Collect_upd_only:
  assumes "\<forall>j. j \<noteq> i \<longrightarrow> \<not> P (f j)"
  shows "{j. P ((f(i := y)) j)} = (if P y then {i} else {})"
  using assms by auto

lemma lifecycle_inv_Started: "lifecycle_inv (Started p)"
  by (simp add: lifecycle_inv_def wait_inv_def pipes_inv_def kills_inv_def call_inv_def
        mutex_inv_def Started_def closed_once_def closers_def)

lemma Shutdown_step_cases [consumes 1, case_names Lock Exited Live TxClose RxClose After Done Kill Killed]:
  assumes "Shutdown_step i w = Some w'"
  obtains
    "shutdown_at w i = SdLock" and "\<not> mu w" and "w' = goto i SdIsExited (w\<lparr>mu := True\<rparr>)"
  | "shutdown_at w i = SdIsExited" and "ProcessState w"
      and "w' = goto i (SdReturned AlreadyExited) (w\<lparr>mu := False\<rparr>)"
  | "shutdown_at w i = SdIsExited" and "\<not> ProcessState w"
      and "w' = slog InfoLevel ''shutdown called'' (goto i SdTxClose w)"
  | "shutdown_at w i = SdTxClose"
      and "w' = goto i SdRxClose (w\<lparr>tx_pipe := File_Close (ByShutdown i) (tx_pipe w)\<rparr>)"
  | "shutdown_at w i = SdRxClose"
      and "w' = goto i SdAfter (w\<lparr>rx_pipe := File_Close (ByShutdown i) (rx_pipe w)\<rparr>)"
  | "shutdown_at w i = SdAfter"
      and "w' = goto i SdSelect (w\<lparr>deadline := (deadline w)(i := time_ns w + grace)\<rparr>)"
  | "shutdown_at w i = SdSelect" and "0 < done_closes w"
      and "w' = slog InfoLevel ''close by done channel''
                  (goto i (SdReturned ByDone) (w\<lparr>mu := False\<rparr>))"
  | "shutdown_at w i = SdKill"
      and "w' = goto i SdWaitDone
                  (w\<lparr>kills := kills w @ [(i, - pid w, SIGKILL)], alive := False\<rparr>)"
  | "shutdown_at w i = SdWaitDone" and "0 < done_closes w"
      and "w' = slog InfoLevel ''close by killing done''
                  (goto i (SdReturned ByKill) (w\<lparr>mu := False\<rparr>))"
proof (cases "shutdown_at w i")
  case SdLock
  with assms have "\<not> mu w" and "w' = goto i SdIsExited (w\<lparr>mu := True\<rparr>)"
    by (simp_all add: Shutdown_step_def split: if_splits)
  with SdLock that(1) show ?thesis by blast
next
  case SdIsExited
  show ?thesis
  proof (cases "ProcessState w")
    case True
    with assms SdIsExited have "w' = goto i (SdReturned AlreadyExited) (w\<lparr>mu := False\<rparr>)"
      by (simp add: Shutdown_step_def)
    with SdIsExited True that(2) show ?thesis by blast
  next
    case False
    with assms SdIsExited have "w' = slog InfoLevel ''shutdown called'' (goto i SdTxClose w)"
      by (simp add: Shutdown_step_def)
    with SdIsExited False that(3) show ?thesis by blast
  qed
next
  case SdTxClose
  with assms have "w' = goto i SdRxClose (w\<lparr>tx_pipe := File_Close (ByShutdown i) (tx_pipe w)\<rparr>)"
    by (simp add: Shutdown_step_def)
  with SdTxClose that(4) show ?thesis by blast
next
  case SdRxClose
  with assms have "w' = goto i SdAfter (w\<lparr>rx_pipe := File_Close (ByShutdown i) (rx_pipe w)\<rparr>)"
    by (simp add: Shutdown_step_def)
  with SdRxClose that(5) show ?thesis by blast
next
  case SdAfter
  with assms have "w' = goto i SdSelect (w\<lparr>deadline := (deadline w)(i := time_ns w + grace)\<rparr>)"
    by (simp add: Shutdown_step_def)
  with SdAfter that(6) show ?thesis by blast
next
  case SdSelect
  with assms have "0 < done_closes w"
    and "w' = slog InfoLevel ''close by done channel''
                  (goto i (SdReturned ByDone) (w\<lparr>mu := False\<rparr>))"
    by (simp_all add: Shutdown_step_def split: if_splits)
  with SdSelect that(7) show ?thesis by blast
next
  case SdKill
  with assms have "w' = goto i SdWaitDone
                  (w\<lparr>kills := kills w @ [(i, - pid w, SIGKILL)], alive := False\<rparr>)"
    by (simp add: Shutdown_step_def)
  with SdKill that(8) show ?thesis by blast
next
  case SdWaitDone
  with assms have "0 < done_closes w"
    and "w' = slog InfoLevel ''close by killing done''
                  (goto i (SdReturned ByKill) (w\<lparr>mu := False\<rparr>))"
    by (simp_all add: Shutdown_step_def split: if_splits)
  with SdWaitDone that(9) show ?thesis by blast
next
  case (SdReturned r)
  with assms show ?thesis by (simp add: Shutdown_step_def)
qed

lemma Shutdown_timer_cases [consumes 1]:
  assumes "Shutdown_timer i w = Some w'"
  obtains "shutdown_at w i = SdSelect" and "deadline w i \<le> time_ns w"
    and "w' = slog WarnLevel ''close by killing start'' (goto i SdKill w)"
  using assms by (simp add: Shutdown_timer_def split: if_splits)

lemma wait_inv_Shutdown_step:
  assumes "wait_inv w" and "Shutdown_step i w = Some w'"
  shows "wait_inv w'"
  using assms(2,1)
  by (cases rule: Shutdown_step_cases) (simp_all add: wait_inv_def)

lemma wait_inv_Shutdown_timer:
  assumes "wait_inv w" and "Shutdown_timer i w = Some w'"
  shows "wait_inv w'"
  using assms(2,1)
  by (cases rule: Shutdown_timer_cases) (simp_all add: wait_inv_def)

lemma call_inv_Shutdown_step:
  assumes "wait_inv w" and "\<forall>j. call_inv w j" and "Shutdown_step i w = Some w'"
  shows "call_inv w' j"
proof -
  from assms(2) have "call_inv w i" and "call_inv w j" by simp_all
  with assms(3,1) show ?thesis
    by (cases rule: Shutdown_step_cases)
       (simp_all add: wait_inv_def call_inv_def split: if_splits)
qed

lemma call_inv_Shutdown_timer:
  assumes "\<forall>j. call_inv w j" and "Shutdown_timer i w = Some w'"
  shows "call_inv w' j"
proof -
  from assms(1) have "call_inv w i" and "call_inv w j" by simp_all
  with assms(2) show ?thesis
    by (cases rule: Shutdown_timer_cases) (simp_all add: call_inv_def)
qed

lemma entered_saw_done:
  assumes "entered pc" and "\<not> holds_mu pc"
  shows "saw_done pc"
  using assms by (cases pc rule: entered.cases) simp_all

lemma closed_entered:
  "shutdown_closed_tx pc \<Longrightarrow> entered pc"
  "shutdown_closed_rx pc \<Longrightarrow> entered pc"
  "shutdown_killed pc \<Longrightarrow> entered pc"
  by (cases pc rule: entered.cases; simp)+

lemma entered_only:
  assumes "mutex_inv w" and "entered (shutdown_at w i)"
  shows "\<forall>j. j \<noteq> i \<longrightarrow> \<not> entered (shutdown_at w j)"
  using assms by (auto simp add: mutex_inv_def)

lemma holds_mu_only:
  assumes "mutex_inv w" and "holds_mu (shutdown_at w i)"
  shows "\<forall>j. j \<noteq> i \<longrightarrow> \<not> holds_mu (shutdown_at w j)"
  using assms by (auto simp add: mutex_inv_def)

lemma mutex_inv_goto:
  assumes "mutex_inv w"
    and sa: "shutdown_at w' = (shutdown_at w)(i := pc)"
    and h: "holds_mu pc \<longrightarrow> holds_mu (shutdown_at w i) \<or> \<not> mu w"
    and e: "entered pc \<longrightarrow> entered (shutdown_at w i)
              \<or> (\<forall>j. j \<noteq> i \<longrightarrow> \<not> entered (shutdown_at w j))"
    and m: "mu w' = (if holds_mu pc = holds_mu (shutdown_at w i) then mu w else holds_mu pc)"
  shows "mutex_inv w'"
proof -
  from assms(1) have a: "mu w \<longleftrightarrow> (\<exists>i. holds_mu (shutdown_at w i))"
    and b: "\<And>i j. holds_mu (shutdown_at w i) \<Longrightarrow> holds_mu (shutdown_at w j) \<Longrightarrow> i = j"
    and c: "\<And>i j. entered (shutdown_at w i) \<Longrightarrow> entered (shutdown_at w j) \<Longrightarrow> i = j"
    by (auto simp add: mutex_inv_def)
  have 1: "mu w' \<longleftrightarrow> (\<exists>j. holds_mu (shutdown_at w' j))"
  proof (cases "holds_mu pc = holds_mu (shutdown_at w i)")
    case True
    then have "(\<exists>j. holds_mu (shutdown_at w' j)) = (\<exists>j. holds_mu (shutdown_at w j))"
      unfolding sa by (metis fun_upd_apply)
    with True m a show ?thesis by simp
  next
    case False
    show ?thesis
    proof (cases "holds_mu pc")
      case True
      with False m sa show ?thesis by auto
    next
      case n: False
      with False have "holds_mu (shutdown_at w i)" by simp
      with b have "\<forall>j. j \<noteq> i \<longrightarrow> \<not> holds_mu (shutdown_at w j)" by blast
      with m sa n False show ?thesis by auto
    qed
  qed
  have 2: "\<forall>j k. holds_mu (shutdown_at w' j) \<and> holds_mu (shutdown_at w' k) \<longrightarrow> j = k"
  proof (intro allI impI)
    fix j k assume jk: "holds_mu (shutdown_at w' j) \<and> holds_mu (shutdown_at w' k)"
    show "j = k"
    proof (rule ccontr)
      assume n: "j \<noteq> k"
      from jk n sa h a b show False
        by (auto split: if_splits)
    qed
  qed
  have 3: "\<forall>j k. entered (shutdown_at w' j) \<and> entered (shutdown_at w' k) \<longrightarrow> j = k"
  proof (intro allI impI)
    fix j k assume jk: "entered (shutdown_at w' j) \<and> entered (shutdown_at w' k)"
    show "j = k"
    proof (rule ccontr)
      assume n: "j \<noteq> k"
      from jk n sa e c show False
        by (auto split: if_splits)
    qed
  qed
  from 1 2 3 show ?thesis by (simp add: mutex_inv_def)
qed

lemma live_first:
  assumes "wait_inv w" and "\<forall>j. call_inv w j" and "mutex_inv w"
    and "shutdown_at w i = SdIsExited" and "\<not> ProcessState w"
  shows "\<forall>j. j \<noteq> i \<longrightarrow> \<not> entered (shutdown_at w j)"
proof (intro allI impI notI)
  fix j assume "j \<noteq> i" and en: "entered (shutdown_at w j)"
  from assms(3,4) \<open>j \<noteq> i\<close> have "\<not> holds_mu (shutdown_at w j)"
    by (auto simp add: mutex_inv_def)
  with en have "saw_done (shutdown_at w j)" by (rule entered_saw_done)
  with assms(2) have "wait_at w = WtReturned" by (simp add: call_inv_def)
  with assms(1,5) show False by (simp add: wait_inv_def)
qed

lemma mutex_inv_Shutdown_step:
  assumes "wait_inv w" and "\<forall>j. call_inv w j" and "mutex_inv w"
    and "Shutdown_step i w = Some w'"
  shows "mutex_inv w'"
  using assms(4)
proof (cases rule: Shutdown_step_cases)
  case Live
  from live_first [OF assms(1-3) Live(1,2)] assms(3) Live show ?thesis
    by (intro mutex_inv_goto [OF assms(3), where i = i and pc = SdTxClose]) simp_all
qed (simp_all add: mutex_inv_goto [OF assms(3)])

lemma mutex_inv_Shutdown_timer:
  assumes "mutex_inv w" and "Shutdown_timer i w = Some w'"
  shows "mutex_inv w'"
  using assms(2)
  by (cases rule: Shutdown_timer_cases) (simp add: mutex_inv_goto [OF assms(1)])

lemma pipes_inv_goto:
  assumes "pipes_inv w"
    and "shutdown_at w' = (shutdown_at w)(i := pc)"
    and "shutdown_closed_rx pc = shutdown_closed_rx (shutdown_at w i)"
    and "shutdown_closed_tx pc = shutdown_closed_tx (shutdown_at w i)"
    and "wait_at w' = wait_at w" and "rx_pipe w' = rx_pipe w" and "tx_pipe w' = tx_pipe w"
  shows "pipes_inv w'"
proof -
  from assms(3) have "{j. shutdown_closed_rx (shutdown_at w' j)} = {j. shutdown_closed_rx (shutdown_at w j)}"
    unfolding assms(2) by (rule Collect_upd_same)
  moreover from assms(4) have "{j. shutdown_closed_tx (shutdown_at w' j)} = {j. shutdown_closed_tx (shutdown_at w j)}"
    unfolding assms(2) by (rule Collect_upd_same)
  ultimately show ?thesis
    using assms(1,5-7) by (simp add: pipes_inv_def)
qed

lemma closers_insert: "insert (ByShutdown i) (closers b {}) = closers b {i}"
  by (simp add: closers_def)

lemma ByShutdown_notin_closers: "ByShutdown i \<notin> closers b {}"
  by (simp add: closers_def)

lemma pipes_inv_Shutdown_step:
  assumes "pipes_inv w" and "mutex_inv w" and "Shutdown_step i w = Some w'"
  shows "pipes_inv w'"
  using assms(3)
proof (cases rule: Shutdown_step_cases)
  case TxClose
  then have "entered (shutdown_at w i)" by simp
  from entered_only [OF assms(2) this]
  have o: "\<forall>j. j \<noteq> i \<longrightarrow> \<not> shutdown_closed_tx (shutdown_at w j)"
    by (auto dest: closed_entered)
  with TxClose have e: "{j. shutdown_closed_tx (shutdown_at w j)} = {}"
    by (metis (mono_tags, lifting) Collect_empty_eq shutdown_closed_tx.simps(3))
  from assms(1) have "closed_once (tx_pipe w) (closers (wait_closed_tx (wait_at w)) {})"
    unfolding pipes_inv_def e by simp
  from closed_once_Close [OF this ByShutdown_notin_closers]
  have "closed_once (File_Close (ByShutdown i) (tx_pipe w)) (closers (wait_closed_tx (wait_at w)) {i})"
    by (simp add: closers_insert)
  moreover from TxClose
  have "{j. shutdown_closed_rx (shutdown_at w' j)} = {j. shutdown_closed_rx (shutdown_at w j)}"
    by (simp del: fun_upd_apply add: Collect_upd_same)
  moreover from TxClose o
  have "{j. shutdown_closed_tx (shutdown_at w' j)} = {i}"
    by (simp del: fun_upd_apply add: Collect_upd_only)
  ultimately show ?thesis
    using TxClose assms(1) by (simp add: pipes_inv_def)
next
  case RxClose
  then have "entered (shutdown_at w i)" by simp
  from entered_only [OF assms(2) this]
  have o: "\<forall>j. j \<noteq> i \<longrightarrow> \<not> shutdown_closed_rx (shutdown_at w j)"
    by (auto dest: closed_entered)
  with RxClose have e: "{j. shutdown_closed_rx (shutdown_at w j)} = {}"
    by (metis (mono_tags, lifting) Collect_empty_eq shutdown_closed_rx.simps(1))
  from assms(1) have "closed_once (rx_pipe w) (closers (wait_closed_rx (wait_at w)) {})"
    unfolding pipes_inv_def e by simp
  from closed_once_Close [OF this ByShutdown_notin_closers]
  have "closed_once (File_Close (ByShutdown i) (rx_pipe w)) (closers (wait_closed_rx (wait_at w)) {i})"
    by (simp add: closers_insert)
  moreover from RxClose
  have "{j. shutdown_closed_tx (shutdown_at w' j)} = {j. shutdown_closed_tx (shutdown_at w j)}"
    by (simp del: fun_upd_apply add: Collect_upd_same)
  moreover from RxClose o
  have "{j. shutdown_closed_rx (shutdown_at w' j)} = {i}"
    by (simp del: fun_upd_apply add: Collect_upd_only)
  ultimately show ?thesis
    using RxClose assms(1) by (simp add: pipes_inv_def)
qed (simp_all add: pipes_inv_goto [OF assms(1)])

lemma pipes_inv_Shutdown_timer:
  assumes "pipes_inv w" and "Shutdown_timer i w = Some w'"
  shows "pipes_inv w'"
  using assms(2)
  by (cases rule: Shutdown_timer_cases) (simp add: pipes_inv_goto [OF assms(1)])

lemma kills_inv_goto:
  assumes "kills_inv w"
    and "shutdown_at w' = (shutdown_at w)(i := pc)"
    and "shutdown_killed pc = shutdown_killed (shutdown_at w i)"
    and "kills w' = kills w" and "pid w' = pid w"
  shows "kills_inv w'"
proof -
  from assms(2,3) have "\<And>j. shutdown_killed (shutdown_at w' j) = shutdown_killed (shutdown_at w j)"
    by simp
  with assms(1,4,5) show ?thesis by (simp add: kills_inv_def)
qed

lemma kills_inv_Shutdown_step:
  assumes "kills_inv w" and "mutex_inv w" and "Shutdown_step i w = Some w'"
  shows "kills_inv w'"
  using assms(3)
proof (cases rule: Shutdown_step_cases)
  case Kill
  then have "entered (shutdown_at w i)" by simp
  from entered_only [OF assms(2) this]
  have o: "\<forall>j. j \<noteq> i \<longrightarrow> \<not> shutdown_killed (shutdown_at w j)"
    by (auto dest: closed_entered)
  with Kill have "\<forall>j. \<not> shutdown_killed (shutdown_at w j)"
    by (metis shutdown_killed.simps(9))
  with assms(1) have "kills w = []" by (simp add: kills_inv_def)
  with Kill o show ?thesis by (simp add: kills_inv_def)
qed (simp_all add: kills_inv_goto [OF assms(1)])

lemma kills_inv_Shutdown_timer:
  assumes "kills_inv w" and "Shutdown_timer i w = Some w'"
  shows "kills_inv w'"
  using assms(2)
  by (cases rule: Shutdown_timer_cases) (simp add: kills_inv_goto [OF assms(1)])

lemma lifecycle_inv_Shutdown_step:
  assumes "lifecycle_inv w" and "Shutdown_step i w = Some w'"
  shows "lifecycle_inv w'"
proof -
  from assms(1) have a: "wait_inv w" and b: "pipes_inv w" and c: "kills_inv w"
    and d: "\<forall>j. call_inv w j" and e: "mutex_inv w"
    by (simp_all add: lifecycle_inv_def)
  note s = assms(2)
  from wait_inv_Shutdown_step [OF a s] pipes_inv_Shutdown_step [OF b e s]
    kills_inv_Shutdown_step [OF c e s] call_inv_Shutdown_step [OF a d s]
    mutex_inv_Shutdown_step [OF a d e s]
  show ?thesis by (simp add: lifecycle_inv_def)
qed

lemma lifecycle_inv_Shutdown_timer:
  assumes "lifecycle_inv w" and "Shutdown_timer i w = Some w'"
  shows "lifecycle_inv w'"
proof -
  from assms(1) have a: "wait_inv w" and b: "pipes_inv w" and c: "kills_inv w"
    and d: "\<forall>j. call_inv w j" and e: "mutex_inv w"
    by (simp_all add: lifecycle_inv_def)
  note s = assms(2)
  from wait_inv_Shutdown_timer [OF a s] pipes_inv_Shutdown_timer [OF b s]
    kills_inv_Shutdown_timer [OF c s] call_inv_Shutdown_timer [OF d s]
    mutex_inv_Shutdown_timer [OF e s]
  show ?thesis by (simp add: lifecycle_inv_def)
qed

lemma closers_ByWait: "insert ByWait (closers False S) = closers True S"
  by (simp add: closers_def)

lemma ByWait_notin_closers: "ByWait \<notin> closers False S"
  by (auto simp add: closers_def)

lemma inv_Exit:
  assumes "lifecycle_inv w"
  shows "lifecycle_inv (w\<lparr>alive := False\<rparr>)"
proof -
  from assms have "\<And>i. call_inv w i" by (simp add: lifecycle_inv_def)
  then have "\<And>i. call_inv (w\<lparr>alive := False\<rparr>) i"
    by (simp add: call_inv_def)
  with assms show ?thesis
    by (simp add: lifecycle_inv_def wait_inv_def pipes_inv_def kills_inv_def mutex_inv_def)
qed

lemma inv_Tick:
  assumes "lifecycle_inv w"
  shows "lifecycle_inv (w\<lparr>time_ns := time_ns w + d\<rparr>)"
proof -
  from assms have c: "\<And>i. call_inv w i" by (simp add: lifecycle_inv_def)
  have "call_inv (w\<lparr>time_ns := time_ns w + d\<rparr>) i" for i
    using c [of i] by (auto simp add: call_inv_def)
  then have "\<And>i. call_inv (w\<lparr>time_ns := time_ns w + d\<rparr>) i" .
  with assms show ?thesis
    by (simp add: lifecycle_inv_def wait_inv_def pipes_inv_def kills_inv_def mutex_inv_def)
qed

lemma inv_WtCmdWait:
  assumes "lifecycle_inv w" and "wait_at w = WtCmdWait" and "\<not> alive w"
  shows "lifecycle_inv (w\<lparr>ProcessState := True, wait_at := WtRxClose\<rparr>)"
proof -
  from assms have "\<And>i. call_inv w i" by (simp add: lifecycle_inv_def)
  with assms(2) have "\<And>i. call_inv (w\<lparr>ProcessState := True, wait_at := WtRxClose\<rparr>) i"
    by (simp add: call_inv_def)
  with assms show ?thesis
    by (simp add: lifecycle_inv_def wait_inv_def pipes_inv_def kills_inv_def mutex_inv_def)
qed

lemma inv_WtRxClose:
  assumes "lifecycle_inv w" and "wait_at w = WtRxClose"
  shows "lifecycle_inv (w\<lparr>rx_pipe := File_Close ByWait (rx_pipe w), wait_at := WtTxClose\<rparr>)"
proof -
  from assms have "\<And>i. call_inv w i" by (simp add: lifecycle_inv_def)
  with assms(2) have c: "\<And>i. call_inv (w\<lparr>rx_pipe := File_Close ByWait (rx_pipe w), wait_at := WtTxClose\<rparr>) i"
    by (simp add: call_inv_def)
  from assms have "closed_once (rx_pipe w) (closers False {i. shutdown_closed_rx (shutdown_at w i)})"
    by (simp add: lifecycle_inv_def pipes_inv_def)
  from closed_once_Close [OF this ByWait_notin_closers]
  have "closed_once (File_Close ByWait (rx_pipe w)) (closers True {i. shutdown_closed_rx (shutdown_at w i)})"
    by (simp add: closers_ByWait)
  with assms c show ?thesis
    by (simp add: lifecycle_inv_def wait_inv_def pipes_inv_def kills_inv_def mutex_inv_def)
qed

lemma inv_WtTxClose:
  assumes "lifecycle_inv w" and "wait_at w = WtTxClose"
  shows "lifecycle_inv (w\<lparr>tx_pipe := File_Close ByWait (tx_pipe w), wait_at := WtCloseDone\<rparr>)"
proof -
  from assms have "\<And>i. call_inv w i" by (simp add: lifecycle_inv_def)
  with assms(2) have c: "\<And>i. call_inv (w\<lparr>tx_pipe := File_Close ByWait (tx_pipe w), wait_at := WtCloseDone\<rparr>) i"
    by (simp add: call_inv_def)
  from assms have "closed_once (tx_pipe w) (closers False {i. shutdown_closed_tx (shutdown_at w i)})"
    by (simp add: lifecycle_inv_def pipes_inv_def)
  from closed_once_Close [OF this ByWait_notin_closers]
  have "closed_once (File_Close ByWait (tx_pipe w)) (closers True {i. shutdown_closed_tx (shutdown_at w i)})"
    by (simp add: closers_ByWait)
  with assms c show ?thesis
    by (simp add: lifecycle_inv_def wait_inv_def pipes_inv_def kills_inv_def mutex_inv_def)
qed

lemma inv_WtCloseDone:
  assumes "lifecycle_inv w" and "wait_at w = WtCloseDone"
  shows "lifecycle_inv (w\<lparr>done_closes := done_closes w + 1,
                          panicked := (panicked w \<or> 0 < done_closes w),
                          wait_at := WtReturned\<rparr>)"
proof -
  from assms have "\<And>i. call_inv w i" by (simp add: lifecycle_inv_def)
  with assms(2) have c: "\<And>i. call_inv (w\<lparr>done_closes := done_closes w + 1,
                          panicked := (panicked w \<or> 0 < done_closes w),
                          wait_at := WtReturned\<rparr>) i"
    by (simp add: call_inv_def)
  with assms show ?thesis
    by (simp add: lifecycle_inv_def wait_inv_def pipes_inv_def kills_inv_def mutex_inv_def)
qed

lemma lifecycle_inv_Wait_step:
  assumes "lifecycle_inv w" and "Wait_step w = Some w'"
  shows "lifecycle_inv w'"
proof (cases "wait_at w")
  case WtCmdWait
  with assms(2) have "\<not> alive w" and "w' = w\<lparr>ProcessState := True, wait_at := WtRxClose\<rparr>"
    by (simp_all add: Wait_step_def split: if_splits)
  with assms(1) WtCmdWait show ?thesis by (simp add: inv_WtCmdWait)
next
  case WtRxClose
  with assms(2) have "w' = w\<lparr>rx_pipe := File_Close ByWait (rx_pipe w), wait_at := WtTxClose\<rparr>"
    by (simp add: Wait_step_def)
  with assms(1) WtRxClose show ?thesis by (simp add: inv_WtRxClose)
next
  case WtTxClose
  with assms(2) have "w' = w\<lparr>tx_pipe := File_Close ByWait (tx_pipe w), wait_at := WtCloseDone\<rparr>"
    by (simp add: Wait_step_def)
  with assms(1) WtTxClose show ?thesis by (simp add: inv_WtTxClose)
next
  case WtCloseDone
  with assms(2) have "w' = w\<lparr>done_closes := done_closes w + 1,
                          panicked := (panicked w \<or> 0 < done_closes w),
                          wait_at := WtReturned\<rparr>"
    by (simp add: Wait_step_def)
  with inv_WtCloseDone [OF assms(1) WtCloseDone] show ?thesis by simp
next
  case WtReturned
  with assms(2) show ?thesis by (simp add: Wait_step_def)
qed

lemma lifecycle_inv_step:
  assumes "lifecycle_inv w" and "lifecycle_step a w = Some w'"
  shows "lifecycle_inv w'"
proof (cases a)
  case Exit
  with assms(2) have "w' = w\<lparr>alive := False\<rparr>" by (simp split: if_splits)
  with assms(1) show ?thesis by (simp add: inv_Exit)
next
  case (Tick d)
  with assms(2) have "w' = w\<lparr>time_ns := time_ns w + d\<rparr>" by simp
  with assms(1) show ?thesis by (simp add: inv_Tick)
next
  case WaitStep
  with assms show ?thesis by (simp add: lifecycle_inv_Wait_step)
next
  case (ShutdownStep i)
  with assms show ?thesis by (simp add: lifecycle_inv_Shutdown_step)
next
  case (ShutdownTimer i)
  with assms show ?thesis by (simp add: lifecycle_inv_Shutdown_timer)
qed

lemma lifecycle_inv_exec:
  assumes "lifecycle_inv w" and "lifecycle_exec sched w = Some w'"
  shows "lifecycle_inv w'"
  using assms
proof (induction sched arbitrary: w)
  case Nil
  then show ?case by simp
next
  case (Cons a sched)
  from Cons.prems(2) obtain w1 where 1: "lifecycle_step a w = Some w1"
    and 2: "lifecycle_exec sched w1 = Some w'"
    by (auto split: option.splits)
  from Cons.IH [OF lifecycle_inv_step [OF Cons.prems(1) 1] 2] show ?case .
qed

lemma reachable_inv:
  assumes "lifecycle_exec sched (Started p) = Some w"
  shows "lifecycle_inv w"
  using lifecycle_inv_Started assms by (rule lifecycle_inv_exec)









lemma closed_once_facts:
  assumes "closed_once f cs"
  shows "length (filter (\<lambda>c. snd c = None) (close_calls f)) \<le> 1"
    and "\<forall>c \<in> set (tl (close_calls f)). snd c = Some ErrClosed"
    and "cs \<subseteq> {ByWait, ByShutdown i} \<Longrightarrow> length (close_calls f) \<le> 2"
    and "fst ` set (close_calls f) = cs"
proof -
  from assms have s: "map snd (close_calls f) =
         (case close_calls f of [] \<Rightarrow> [] | _ # r \<Rightarrow> None # map (\<lambda>_. Some ErrClosed) r)"
    and d: "distinct (map fst (close_calls f))" and c: "set (map fst (close_calls f)) = cs"
    by (simp_all add: closed_once_def)
  have t: "\<forall>c \<in> set (tl (close_calls f)). snd c = Some ErrClosed"
  proof (cases "close_calls f")
    case Nil
    then show ?thesis by simp
  next
    case (Cons a r)
    with s have "map snd r = map (\<lambda>_. Some ErrClosed) r" by simp
    then have "\<forall>c \<in> set r. snd c = Some ErrClosed" by (simp add: map_eq_conv)
    with Cons show ?thesis by simp
  qed
  then show "\<forall>c \<in> set (tl (close_calls f)). snd c = Some ErrClosed" .
  from t have "filter (\<lambda>c. snd c = None) (tl (close_calls f)) = []"
    by (auto simp add: filter_empty_conv)
  then show "length (filter (\<lambda>c. snd c = None) (close_calls f)) \<le> 1"
    by (cases "close_calls f") auto
  show "length (close_calls f) \<le> 2" if sub: "cs \<subseteq> {ByWait, ByShutdown i}"
  proof -
    have "length (close_calls f) = card (set (map fst (close_calls f)))"
      using distinct_card [OF d] by simp
    also have "\<dots> \<le> card {ByWait, ByShutdown i}"
      using sub c by (intro card_mono) simp_all
    also have "\<dots> = 2" by simp
    finally show ?thesis .
  qed
  from c show "fst ` set (close_calls f) = cs" by simp
qed

lemma closers_few:
  assumes "mutex_inv w" and "\<And>pc. P pc \<Longrightarrow> entered pc"
  shows "\<exists>i. closers b {j. P (shutdown_at w j)} \<subseteq> {ByWait, ByShutdown i}"
proof (cases "\<exists>i. P (shutdown_at w i)")
  case True
  then obtain i where i: "P (shutdown_at w i)" ..
  have "{j. P (shutdown_at w j)} \<subseteq> {i}"
  proof
    fix j assume "j \<in> {j. P (shutdown_at w j)}"
    then have "entered (shutdown_at w j)" by (simp add: assms(2))
    moreover from i have "entered (shutdown_at w i)" by (rule assms(2))
    ultimately have "j = i" using assms(1) by (auto simp add: mutex_inv_def)
    then show "j \<in> {i}" by simp
  qed
  then have "closers b {j. P (shutdown_at w j)} \<subseteq> {ByWait, ByShutdown i}"
    by (auto simp add: closers_def)
  then show ?thesis ..
next
  case False
  then have "closers b {j. P (shutdown_at w j)} \<subseteq> {ByWait, ByShutdown 0}"
    by (auto simp add: closers_def)
  then show ?thesis ..
qed







lemmas life_defs = Started_def Wait_step_def Shutdown_step_def Shutdown_timer_def slog_def
  File_Close_def grace_def goto_def



lemma race_run_result:
  "lifecycle_exec race_run (Started 42) =
     Some \<lparr>pid = 42, alive = False, ProcessState = True,
           rx_pipe = \<lparr>is_open = False,
                      close_calls = [(ByWait, None), (ByShutdown 0, Some ErrClosed)]\<rparr>,
           tx_pipe = \<lparr>is_open = False,
                      close_calls = [(ByShutdown 0, None), (ByWait, Some ErrClosed)]\<rparr>,
           done_closes = 1, panicked = False, kills = [],
           time_ns = 0, deadline = (\<lambda>_. 0)(0 := 30000000000), mu = False,
           shutdown_at = (\<lambda>_. SdLock)(0 := SdReturned ByDone), wait_at = WtReturned,
           shutdown_log = [(InfoLevel, ''shutdown called''), (InfoLevel, ''close by done channel'')]\<rparr>"
  by (simp add: race_run_def life_defs)









text \<open>
  C9. However the calls of \<^verbatim>\<open>Shutdown\<close> and the exit of the child with \<^verbatim>\<open>Wait\<close>
  interleave, no pipe end is closed twice: each end is released at most once, by whoever
  calls \<^verbatim>\<open>Close\<close> first, and \<^verbatim>\<open>Close\<close> is idempotent, a second call on the same end finds
  it closed, returns \<open>ErrClosed\<close> and changes nothing; no end sees more than two calls;
  \<^verbatim>\<open>done\<close> is closed at most once, and nothing panics.
\<close>

theorem Shutdown_Wait_race:
  assumes "lifecycle_exec sched (Started p) = Some w"
  shows "length (filter (\<lambda>c. snd c = None) (close_calls (rx_pipe w))) \<le> 1
       \<and> length (filter (\<lambda>c. snd c = None) (close_calls (tx_pipe w))) \<le> 1
       \<and> (\<forall>c \<in> set (tl (close_calls (rx_pipe w))). snd c = Some ErrClosed)
       \<and> (\<forall>c \<in> set (tl (close_calls (tx_pipe w))). snd c = Some ErrClosed)
       \<and> is_open (rx_pipe w) = (close_calls (rx_pipe w) = [])
       \<and> is_open (tx_pipe w) = (close_calls (tx_pipe w) = [])
       \<and> length (close_calls (rx_pipe w)) \<le> 2
       \<and> length (close_calls (tx_pipe w)) \<le> 2
       \<and> done_closes w \<le> 1
       \<and> \<not> panicked w"
proof -
  from assms have inv: "lifecycle_inv w" by (rule reachable_inv)
  then have wi: "wait_inv w" and pi: "pipes_inv w" and mi: "mutex_inv w"
    by (simp_all add: lifecycle_inv_def)
  from pi have rx: "closed_once (rx_pipe w)
         (closers (wait_closed_rx (wait_at w)) {j. shutdown_closed_rx (shutdown_at w j)})"
    and tx: "closed_once (tx_pipe w)
         (closers (wait_closed_tx (wait_at w)) {j. shutdown_closed_tx (shutdown_at w j)})"
    by (simp_all add: pipes_inv_def)
  from rx have rxo: "is_open (rx_pipe w) = (close_calls (rx_pipe w) = [])"
    by (simp add: closed_once_def)
  from tx have txo: "is_open (tx_pipe w) = (close_calls (tx_pipe w) = [])"
    by (simp add: closed_once_def)
  from wi have d: "done_closes w \<le> 1" and np: "\<not> panicked w"
    by (simp_all add: wait_inv_def)
  from closers_few [OF mi closed_entered(2)] obtain i
    where "closers (wait_closed_rx (wait_at w)) {j. shutdown_closed_rx (shutdown_at w j)}
             \<subseteq> {ByWait, ByShutdown i}" by blast
  from closed_once_facts(3) [OF rx this] have rxl: "length (close_calls (rx_pipe w)) \<le> 2" .
  from closers_few [OF mi closed_entered(1)] obtain k
    where "closers (wait_closed_tx (wait_at w)) {j. shutdown_closed_tx (shutdown_at w j)}
             \<subseteq> {ByWait, ByShutdown k}" by blast
  from closed_once_facts(3) [OF tx this] have txl: "length (close_calls (tx_pipe w)) \<le> 2" .
  from closed_once_facts(1,2) [OF rx] closed_once_facts(1,2) [OF tx] rxo txo rxl txl d np
  show ?thesis by (intro conjI)
qed

theorem Shutdown_Wait_race_witness:
  "close_calls (rx_pipe (the (lifecycle_exec race_run (Started 42)))) =
     [(ByWait, None), (ByShutdown 0, Some ErrClosed)]
   \<and> close_calls (tx_pipe (the (lifecycle_exec race_run (Started 42)))) =
     [(ByShutdown 0, None), (ByWait, Some ErrClosed)]
   \<and> length (filter (\<lambda>c. snd c = None)
         (close_calls (rx_pipe (the (lifecycle_exec race_run (Started 42)))))) \<le> 1
   \<and> length (filter (\<lambda>c. snd c = None)
         (close_calls (tx_pipe (the (lifecycle_exec race_run (Started 42)))))) \<le> 1
   \<and> done_closes (the (lifecycle_exec race_run (Started 42))) \<le> 1
   \<and> \<not> panicked (the (lifecycle_exec race_run (Started 42)))"
proof -
  note a = Shutdown_Wait_race [OF race_run_result]
  have 1: "close_calls (rx_pipe (the (lifecycle_exec race_run (Started 42)))) =
     [(ByWait, None), (ByShutdown 0, Some ErrClosed)]"
    and 2: "close_calls (tx_pipe (the (lifecycle_exec race_run (Started 42)))) =
     [(ByShutdown 0, None), (ByWait, Some ErrClosed)]"
    by (simp_all add: race_run_result)
  from a have 3: "length (filter (\<lambda>c. snd c = None)
         (close_calls (rx_pipe (the (lifecycle_exec race_run (Started 42)))))) \<le> 1"
    and 4: "length (filter (\<lambda>c. snd c = None)
         (close_calls (tx_pipe (the (lifecycle_exec race_run (Started 42)))))) \<le> 1"
    and 5: "done_closes (the (lifecycle_exec race_run (Started 42))) \<le> 1"
    and 6: "\<not> panicked (the (lifecycle_exec race_run (Started 42)))"
    by (simp_all add: race_run_result)
  from 1 2 3 4 5 6 show ?thesis by (intro conjI)
qed

end
